theory Spec2Isabelle
  imports Complex_Main "HOL-Library.Word"
begin

section \<open>ERC-20 balances over multicall: the pure core of \<open>src/index.ts\<close>\<close>

text \<open>
  The module fetches token balances through a multicall contract. Its network calls
  (\<open>aggregate\<close>, \<open>fetchRawBalances\<close>, \<open>getTokenBalances\<close>) only pass data between the
  functions embedded here: \<open>chunk\<close>, \<open>getNonZeroResults\<close>, \<open>resultDataByContract\<close>,
  \<open>buildCallsContext\<close>, \<open>decodeMetaResults\<close>, \<open>balancesByContract\<close> and \<open>getAddress\<close>.
  Each definition follows the TypeScript statement by statement; what the code takes from
  the ethers library is modelled beside it and marked as such.
\<close>

subsection \<open>Values of the runtime: errors, bytes, decimal strings, objects\<close>

text \<open>
  A thrown exception is a value: \<open>Error msg\<close> is \<^verbatim>\<open>new Error(msg)\<close>, \<open>TypeError\<close> is the
  runtime's own (destructuring \<^verbatim>\<open>undefined\<close>), and \<open>EthersError code\<close> is an error the ethers
  library raises through its \<^verbatim>\<open>assert\<close>, kept by its code.
\<close>

datatype ethers_code = INVALID_ARGUMENT | BUFFER_OVERRUN | NUMERIC_FAULT

datatype js_error = Error string | TypeError | EthersError ethers_code

type_synonym byte = "8 word"

text \<open>
  Return data reaches this module as ethers hands it over: a \<^verbatim>\<open>DataHexString\<close>, that is a
  string. \<open>getBytes\<close> is ethers' reading of such a string
  (\<^verbatim>\<open>/^0x([0-9a-f][0-9a-f])*$/i\<close>), failing with \<^verbatim>\<open>INVALID_ARGUMENT\<close> on anything else. The
  pattern ignores case, in the prefix as in the digits: \<^verbatim>\<open>0X\<close> opens a hex string as \<^verbatim>\<open>0x\<close>
  does.
\<close>

definition hexDigit :: "char \<Rightarrow> nat option" where
  "hexDigit c = map_of (zip ''0123456789abcdef'' [0..<16] @ zip ''ABCDEF'' [10..<16]) c"

fun hexPairs :: "string \<Rightarrow> byte list option" where
  "hexPairs [] = Some []"
| "hexPairs [c] = None"
| "hexPairs (c # d # cs) =
     (case (hexDigit c, hexDigit d, hexPairs cs) of
        (Some h, Some l, Some bs) \<Rightarrow> Some (of_nat (16 * h + l) # bs)
      | _ \<Rightarrow> None)"

definition getBytes :: "string \<Rightarrow> js_error + byte list" where
  "getBytes v =
     (case v of
        c0 # c1 # cs \<Rightarrow>
          if c0 = CHR ''0'' \<and> (c1 = CHR ''x'' \<or> c1 = CHR ''X'') then
            (case hexPairs cs of Some bs \<Rightarrow> Inr bs | None \<Rightarrow> Inl (EthersError INVALID_ARGUMENT))
          else Inl (EthersError INVALID_ARGUMENT)
      | _ \<Rightarrow> Inl (EthersError INVALID_ARGUMENT))"

definition isBytesLike :: "string \<Rightarrow> bool" where
  "isBytesLike d = (case getBytes d of Inr _ \<Rightarrow> True | Inl _ \<Rightarrow> False)"

definition dataBytes :: "string \<Rightarrow> byte list" where
  "dataBytes d = (case getBytes d of Inr bs \<Rightarrow> bs | Inl _ \<Rightarrow> [])"

text \<open>\<^verbatim>\<open>xs[i]\<close> is \<^verbatim>\<open>undefined\<close> beyond the end of an array.\<close>

definition nth_opt :: "'a list \<Rightarrow> nat \<Rightarrow> 'a option" where
  "nth_opt xs i = (if i < length xs then Some (xs ! i) else None)"

text \<open>\<^verbatim>\<open>toString()\<close> of a bigint: its decimal digits, with a sign when negative.\<close>

fun natToString :: "nat \<Rightarrow> string" where
  "natToString n =
     (if n < 10 then [''0123456789'' ! n]
      else natToString (n div 10) @ [''0123456789'' ! (n mod 10)])"

declare natToString.simps [simp del]

definition bigintToString :: "int \<Rightarrow> string" where
  "bigintToString i = (if i < 0 then CHR ''-'' # natToString (nat (- i)) else natToString (nat i))"

definition isDigit :: "char \<Rightarrow> bool" where
  "isDigit c = (c \<in> set ''0123456789'')"

definition digitValue :: "char \<Rightarrow> nat" where
  "digitValue c = (case map_of (zip ''0123456789'' [0..<10]) c of Some d \<Rightarrow> d | None \<Rightarrow> 0)"

definition decValue :: "string \<Rightarrow> nat" where
  "decValue s = foldl (\<lambda>n c. 10 * n + digitValue c) 0 s"

text \<open>
  An object with string keys is the list of its own properties in creation order.
  \<open>obj_set ob k v\<close> is \<^verbatim>\<open>{...ob, [k]: v}\<close>: an existing key keeps its place and takes the new
  value, a new key goes last. \<open>obj_keys\<close> is \<^verbatim>\<open>Object.keys\<close>: the keys that are array indices
  first, in ascending order, then the others in creation order.
\<close>

type_synonym 'v obj = "(string \<times> 'v) list"

definition obj_get :: "'v obj \<Rightarrow> string \<Rightarrow> 'v option" where
  "obj_get ob k = map_of ob k"

fun obj_set :: "'v obj \<Rightarrow> string \<Rightarrow> 'v \<Rightarrow> 'v obj" where
  "obj_set [] k v = [(k, v)]"
| "obj_set ((k', v') # ob) k v = (if k' = k then (k, v) # ob else (k', v') # obj_set ob k v)"

definition isArrayIndex :: "string \<Rightarrow> bool" where
  "isArrayIndex k =
     (k \<noteq> [] \<and> list_all isDigit k \<and> (k = ''0'' \<or> hd k \<noteq> CHR ''0'') \<and> decValue k < 4294967295)"

definition obj_keys :: "'v obj \<Rightarrow> string list" where
  "obj_keys ob =
     sort_key decValue (filter isArrayIndex (map fst ob))
     @ filter (\<lambda>k. \<not> isArrayIndex k) (map fst ob)"

subsection \<open>\<open>getNonZeroResults\<close>\<close>

text \<open>
  \<^verbatim>\<open>results.map((result, index) => [contractAddresses[index], ...result])
         .filter(({2: data}) => data !== ZeroHash && data.length === ZeroHash.length)\<close>
  \<open>ZeroHash\<close> is ethers' constant, the hex string of 32 zero bytes; both tests are on strings.
\<close>

type_synonym CallResult = "bool \<times> string"

type_synonym AssociatedCallResult = "string \<times> bool \<times> string"

definition ZeroHash :: string where
  "ZeroHash = ''0x0000000000000000000000000000000000000000000000000000000000000000''"

definition getNonZeroResults ::
  "CallResult list \<Rightarrow> string list \<Rightarrow> (string option \<times> bool \<times> string) list" where
  "getNonZeroResults results contractAddresses =
     filter (\<lambda>(_, _, data).
               let hasBalance = (data \<noteq> ZeroHash);
                   expectedFormat = (length data = length ZeroHash)
               in hasBalance \<and> expectedFormat)
       (map (\<lambda>(result, index). (nth_opt contractAddresses index, fst result, snd result))
          (zip results [0..<length results]))"

subsection \<open>\<open>resultDataByContract\<close>\<close>

text \<open>
  \<^verbatim>\<open>associatedCallResults.reduce((balances, result) =>
       ({...balances, [result[0]]: result[2]}), {})\<close>
\<close>

definition resultDataByContract :: "AssociatedCallResult list \<Rightarrow> string obj" where
  "resultDataByContract associatedCallResults =
     foldl (\<lambda>balances result.
              case result of (contractAddress, _, data) \<Rightarrow> obj_set balances contractAddress data)
       [] associatedCallResults"

subsection \<open>\<open>buildCallsContext\<close>\<close>

text \<open>
  The function returns \<^verbatim>\<open>{calls, context}\<close>, here the pair. The call data comes from
  \<^verbatim>\<open>erc20Interface.encodeFunctionData(methodName)\<close>; the interface is built from an ABI file
  that is not among the sources, so the encoder is a parameter. \<open>erc20Selectors\<close> is the
  instance used in examples: the four-byte selectors of the three getters.
\<close>

record Call =
  target :: string
  callData :: string

record CallContext =
  contractAddress :: string
  methodName :: string

definition buildCallsContext ::
  "(string \<Rightarrow> string) \<Rightarrow> AssociatedCallResult list \<Rightarrow> Call list \<times> CallContext list" where
  "buildCallsContext encodeFunctionData associatedResults =
     (let contractAddresses = map (\<lambda>result. fst result) associatedResults
      in (concat (map (\<lambda>contractAddress.
                    map (\<lambda>methodName.
                           \<lparr>target = contractAddress, callData = encodeFunctionData methodName\<rparr>)
                      [''symbol'', ''decimals'', ''name''])
                  contractAddresses),
          concat (map (\<lambda>contractAddress.
                    map (\<lambda>methodName.
                           \<lparr>contractAddress = contractAddress, methodName = methodName\<rparr>)
                      [''symbol'', ''decimals'', ''name''])
                  contractAddresses)))"

definition erc20Selectors :: "string \<Rightarrow> string" where
  "erc20Selectors m =
     (if m = ''symbol'' then ''0x95d89b41''
      else if m = ''decimals'' then ''0x313ce567''
      else if m = ''name'' then ''0x06fdde03''
      else ''0x'')"

subsection \<open>\<open>getAddress\<close>\<close>

text \<open>
  The provider is the network: \<open>getNetwork\<close> answers with the chain id or fails,
  \<open>resolveName\<close> answers with an address, with \<^verbatim>\<open>null\<close> (\<open>None\<close>) or fails. The function
  returns the provider calls it made, in order, beside its result. \<open>isAddress\<close> is ethers'
  address check, a parameter. \<^verbatim>\<open>if (address)\<close> is false for \<^verbatim>\<open>null\<close> and for the empty string.
\<close>

record Provider =
  getNetwork :: "js_error + int"
  resolveName :: "string \<Rightarrow> js_error + string option"

datatype provider_call = GetNetwork | ResolveName string

definition unsupportedChainMessage :: "int \<Rightarrow> string" where
  "unsupportedChainMessage chainId =
     ''Chain '' @ bigintToString chainId
       @ '' does not support ENS. See https://github.com/ethers-io/ethers.js/issues/310''"

definition getAddress ::
  "(string \<Rightarrow> bool) \<Rightarrow> string \<Rightarrow> Provider \<Rightarrow> provider_call list \<times> (js_error + string)" where
  "getAddress isAddress addressOrName provider =
     (if isAddress addressOrName then ([], Inr addressOrName)
      else case getNetwork provider of
        Inl e \<Rightarrow> ([GetNetwork], Inl e)
      | Inr chainId \<Rightarrow>
          if chainId = 1 then
            (case resolveName provider addressOrName of
               Inl e \<Rightarrow> ([GetNetwork, ResolveName addressOrName], Inl e)
             | Inr address \<Rightarrow>
                 (case address of
                    Some a \<Rightarrow>
                      if a \<noteq> [] then ([GetNetwork, ResolveName addressOrName], Inr a)
                      else ([GetNetwork, ResolveName addressOrName],
                            Inl (Error ''Invalid ENS domain.''))
                  | None \<Rightarrow>
                      ([GetNetwork, ResolveName addressOrName],
                       Inl (Error ''Invalid ENS domain.''))))
          else ([GetNetwork], Inl (Error (unsupportedChainMessage chainId))))"

subsection \<open>\<open>chunk\<close>\<close>

text \<open>
  \<^verbatim>\<open>array.forEach(item => { if (chunk.length === size) { chunked.push(chunk); chunk = [item] }
                          else chunk.push(item) });
  if (chunk.length) chunked.push(chunk);\<close>
  The loop state is the pair \<open>(chunked, chunk)\<close>. \<open>size\<close> is a JavaScript number; the
  integers are modelled (\<open>sz\<close>), and \<open>chunk.length === size\<close> compares the length with it.
\<close>

definition chunk_step :: "int \<Rightarrow> 'a list list \<times> 'a list \<Rightarrow> 'a \<Rightarrow> 'a list list \<times> 'a list" where
  "chunk_step sz st item =
     (case st of (chunked, chunk) \<Rightarrow>
        if int (length chunk) = sz then (chunked @ [chunk], [item])
        else (chunked, chunk @ [item]))"

definition chunk :: "'a list \<Rightarrow> int \<Rightarrow> 'a list list" where
  "chunk array sz =
     (case foldl (chunk_step sz) ([], []) array of (chunked, chunk) \<Rightarrow>
        if length chunk \<noteq> 0 then chunked @ [chunk] else chunked)"

text \<open>
  For a positive size the loop keeps: every finished group has exactly \<open>sz\<close> items, the
  open group has at most \<open>sz\<close>, and the open group is empty only before the first item.
\<close>

definition chunk_inv :: "int \<Rightarrow> 'a list list \<times> 'a list \<Rightarrow> bool" where
  "chunk_inv sz st =
     (list_all (\<lambda>g. int (length g) = sz) (fst st) \<and> int (length (snd st)) \<le> sz
      \<and> (snd st = [] \<longrightarrow> fst st = []))"

subsection \<open>What the module takes from ethers: decoding return data\<close>

text \<open>
  The ethers library (version 6) is a dependency of the module, not part of its sources.
  The functions the module calls are modelled here after the library's behaviour:
  \<^verbatim>\<open>AbiCoder.decode\<close> for one output type, \<^verbatim>\<open>toUtf8String\<close>, \<^verbatim>\<open>decodeBytes32String\<close> and, further
  down, \<^verbatim>\<open>formatUnits\<close>.

  The ABI reader takes 32-byte words and fails with \<^verbatim>\<open>BUFFER_OVERRUN\<close> when fewer bytes are
  left. An unsigned integer of \<open>bits\<close> bits is the first word masked to \<open>bits\<close> bits (the
  decoder masks, it does not range-check); a bool is whether the word is non-zero; a string
  is read through its offset word and its length word, both of which must be safe
  integers, and its bytes must be well-formed UTF-8. Data beyond what is read is ignored.
\<close>

datatype abi_type = TUint nat | TString | TBool

text \<open>
  A number is a double: a finite value (here any rational), \<open>NaN\<close> or an infinity. A value
  is what a decoded entry or a field of a token record can hold.
\<close>

datatype js_number = Finite rat | NaN | PosInfinity | NegInfinity

datatype js_value = JString string | JBigInt int | JNumber js_number | JBoolean bool

definition beValue :: "byte list \<Rightarrow> nat" where
  "beValue bs = foldl (\<lambda>n b. 256 * n + unat b) 0 bs"

definition readValue :: "byte list \<Rightarrow> js_error + nat" where
  "readValue bytes =
     (if length bytes < 32 then Inl (EthersError BUFFER_OVERRUN) else Inr (beValue (take 32 bytes)))"

definition readIndex :: "byte list \<Rightarrow> js_error + nat" where
  "readIndex bytes =
     (case readValue bytes of
        Inl e \<Rightarrow> Inl e
      | Inr v \<Rightarrow> if 9007199254740991 < v then Inl (EthersError INVALID_ARGUMENT) else Inr v)"

definition overlongMask :: "nat \<Rightarrow> nat" where
  "overlongMask extraLength = (if extraLength = 1 then 127 else if extraLength = 2 then 2047 else 65535)"

definition utf8ExtraLength :: "nat \<Rightarrow> nat" where
  "utf8ExtraLength c =
     (if c div 32 = 6 then 1 else if c div 16 = 14 then 2 else if c div 8 = 30 then 3 else 0)"

definition utf8Sequence :: "nat \<Rightarrow> nat list \<Rightarrow> bool" where
  "utf8Sequence c bytes =
     (let extraLength = utf8ExtraLength c in
      if extraLength = 0 then False
      else if length bytes < extraLength then False
      else if \<not> list_all (\<lambda>nextChar. nextChar div 64 = 2) (take extraLength bytes) then False
      else
        let res = foldl (\<lambda>r nextChar. 64 * r + nextChar mod 64)
                    (c mod 2 ^ (7 - extraLength)) (take extraLength bytes)
        in \<not> (1114111 < res) \<and> \<not> (55296 \<le> res \<and> res \<le> 57343) \<and> \<not> (res \<le> overlongMask extraLength))"

function utf8Valid :: "nat list \<Rightarrow> bool" where
  "utf8Valid [] = True"
| "utf8Valid (c # bytes) =
     (if c div 128 = 0 then utf8Valid bytes
      else if utf8Sequence c bytes then utf8Valid (drop (utf8ExtraLength c) bytes)
      else False)"
  by pat_completeness auto
termination
  by (relation "measure length") simp_all

text \<open>
  Decoded text is kept as its UTF-8 bytes, one \<open>char\<close> per byte; for ASCII text that is the
  text itself.
\<close>

definition byteChar :: "byte \<Rightarrow> char" where
  "byteChar b = char_of (unat b)"

definition toUtf8String :: "byte list \<Rightarrow> js_error + string" where
  "toUtf8String bytes =
     (if utf8Valid (map unat bytes) then Inr (map byteChar bytes)
      else Inl (EthersError INVALID_ARGUMENT))"

text \<open>
  \<^verbatim>\<open>decodeBytes32String\<close>: the data must be exactly 32 bytes and end in a zero byte; the text
  is what precedes the trailing zero bytes
  (\<^verbatim>\<open>let length = 31; while (data[length - 1] === 0) { length--; }\<close>).
\<close>

fun bytes32Length :: "byte list \<Rightarrow> nat \<Rightarrow> nat" where
  "bytes32Length data len =
     (if 0 < len \<and> data ! (len - 1) = 0 then bytes32Length data (len - 1) else len)"

declare bytes32Length.simps [simp del]

definition decodeBytes32String :: "string \<Rightarrow> js_error + string" where
  "decodeBytes32String d =
     (case getBytes d of
        Inl e \<Rightarrow> Inl e
      | Inr data \<Rightarrow>
          if length data \<noteq> 32 then Inl (Error ''invalid bytes32 - not 32 bytes long'')
          else if data ! 31 \<noteq> 0 then Inl (Error ''invalid bytes32 string - no null terminator'')
          else toUtf8String (take (bytes32Length data 31) data))"

definition decodeString :: "byte list \<Rightarrow> js_error + string" where
  "decodeString bytes =
     (case readIndex bytes of
        Inl e \<Rightarrow> Inl e
      | Inr offset \<Rightarrow>
          let offsetReader = drop offset bytes in
          (case readIndex offsetReader of
             Inl e \<Rightarrow> Inl e
           | Inr len \<Rightarrow>
               let alignedLength = ((len + 31) div 32) * 32 in
               if length offsetReader < 32 + alignedLength then Inl (EthersError BUFFER_OVERRUN)
               else toUtf8String (take len (drop 32 offsetReader))))"

definition abiDecode :: "abi_type option \<Rightarrow> string \<Rightarrow> js_error + js_value" where
  "abiDecode ty d =
     (case ty of
        None \<Rightarrow> Inl (EthersError INVALID_ARGUMENT)
      | Some t \<Rightarrow>
          (case getBytes d of
             Inl e \<Rightarrow> Inl e
           | Inr bytes \<Rightarrow>
               (case t of
                  TUint bits \<Rightarrow> map_sum id (\<lambda>v. JBigInt (int (v mod 2 ^ bits))) (readValue bytes)
                | TBool \<Rightarrow> map_sum id (\<lambda>v. JBoolean (v \<noteq> 0)) (readValue bytes)
                | TString \<Rightarrow> map_sum id JString (decodeString bytes))))"

text \<open>
  \<^verbatim>\<open>fragmentTypes\<close> maps a method name to the type of its first output. The module computes
  it from the ERC-20 ABI file, which is not among the sources, so it is a parameter of
  \<open>decodeMetaResults\<close>. Modelled from the spec: \<open>erc20FragmentTypes\<close>, the instance used in
  examples, has the entries the spec lists (\<open>symbol\<close> and \<open>name\<close> give a string, \<open>decimals\<close> a
  \<open>uint8\<close>, \<open>balanceOf\<close> a \<open>uint256\<close>).
\<close>

definition erc20FragmentTypes :: "string \<Rightarrow> abi_type option" where
  "erc20FragmentTypes name =
     (if name = ''symbol'' then Some TString
      else if name = ''decimals'' then Some (TUint 8)
      else if name = ''name'' then Some TString
      else if name = ''balanceOf'' then Some (TUint 256)
      else None)"


subsection \<open>\<open>decodeMetaResults\<close>\<close>

text \<open>
  \<^verbatim>\<open>Number(methodValue)\<close>: a bigint becomes the nearest double (ties to even), a boolean 0
  or 1. What \<^verbatim>\<open>Number\<close> makes of a string (the language's \<^verbatim>\<open>StringToNumber\<close>) is a parameter,
  \<open>stringToNumber\<close>.
\<close>

fun bitLength :: "nat \<Rightarrow> nat" where
  "bitLength n = (if n = 0 then 0 else Suc (bitLength (n div 2)))"

declare bitLength.simps [simp del]

definition bigintToNumber :: "int \<Rightarrow> js_number" where
  "bigintToNumber i =
     (let m = nat \<bar>i\<bar>;
          e = bitLength m - 53;
          q = m div 2 ^ e;
          r = m mod 2 ^ e;
          rounded = (if 2 ^ e < 2 * r \<or> (2 * r = 2 ^ e \<and> odd q) then (q + 1) * 2 ^ e else q * 2 ^ e)
      in if 2 ^ 1024 \<le> rounded then (if i < 0 then NegInfinity else PosInfinity)
         else Finite (of_int (if i < 0 then - int rounded else int rounded)))"

definition Number :: "(string \<Rightarrow> js_number) \<Rightarrow> js_value \<Rightarrow> js_number" where
  "Number stringToNumber v =
     (case v of
        JString s \<Rightarrow> stringToNumber s
      | JBigInt i \<Rightarrow> bigintToNumber i
      | JNumber n \<Rightarrow> n
      | JBoolean b \<Rightarrow> Finite (if b then 1 else 0))"

type_synonym TokenInfo = "js_value obj"

type_synonym MetaByContract = "TokenInfo obj"

definition problemDecoding :: "string \<Rightarrow> string \<Rightarrow> string" where
  "problemDecoding method address =
     ''Problem decoding '' @ method @ '' for '' @ address
       @ ''. The contract is likely not ERC-20 compliant.''"

text \<open>
  One round of the \<^verbatim>\<open>reduce\<close>. \<^verbatim>\<open>context[index]\<close> beyond the end of \<open>context\<close> is \<^verbatim>\<open>undefined\<close>,
  whose destructuring throws before the \<^verbatim>\<open>try\<close>. Inside the \<^verbatim>\<open>try\<close>, any failure of the ABI
  decoding leads to the \<^verbatim>\<open>catch\<close>: one line on the console, then \<^verbatim>\<open>decodeBytes32String\<close>,
  whose own failure is not caught. The round returns the console lines it wrote and
  either the error thrown or the next accumulator, \<^verbatim>\<open>{...meta, [contractAddress]:
  {...meta[contractAddress], [methodName]: methodValue}}\<close>.
\<close>

definition decodeMetaStep ::
  "(string \<Rightarrow> abi_type option) \<Rightarrow> (string \<Rightarrow> js_number) \<Rightarrow> CallContext list \<Rightarrow>
     MetaByContract \<Rightarrow> CallResult \<Rightarrow> nat \<Rightarrow> string list \<times> (js_error + MetaByContract)" where
  "decodeMetaStep fragmentTypes stringToNumber context meta result index =
     (let data = snd result in
      case nth_opt context index of
        None \<Rightarrow> ([], Inl TypeError)
      | Some c \<Rightarrow>
          (case (case abiDecode (fragmentTypes (methodName c)) data of
                   Inr v \<Rightarrow> ([], Inr v)
                 | Inl error \<Rightarrow>
                     ([problemDecoding (methodName c) (contractAddress c)],
                      map_sum id JString (decodeBytes32String data))) of
             (info, Inl e) \<Rightarrow> (info, Inl e)
           | (info, Inr methodValue) \<Rightarrow>
               (info,
                Inr (obj_set meta (contractAddress c)
                      (obj_set (case obj_get meta (contractAddress c) of None \<Rightarrow> [] | Some t \<Rightarrow> t)
                         (methodName c)
                         (if methodName c = ''decimals''
                          then JNumber (Number stringToNumber methodValue)
                          else methodValue))))))"

fun decodeMetaLoop ::
  "(string \<Rightarrow> abi_type option) \<Rightarrow> (string \<Rightarrow> js_number) \<Rightarrow> CallContext list \<Rightarrow>
     nat \<Rightarrow> CallResult list \<Rightarrow> MetaByContract \<Rightarrow> string list \<times> (js_error + MetaByContract)" where
  "decodeMetaLoop fragmentTypes stringToNumber context index [] meta = ([], Inr meta)"
| "decodeMetaLoop fragmentTypes stringToNumber context index (result # rest) meta =
     (case decodeMetaStep fragmentTypes stringToNumber context meta result index of
        (info, Inl e) \<Rightarrow> (info, Inl e)
      | (info, Inr meta') \<Rightarrow>
          (case decodeMetaLoop fragmentTypes stringToNumber context (Suc index) rest meta' of
             (info', r) \<Rightarrow> (info @ info', r)))"

definition decodeMetaResults ::
  "(string \<Rightarrow> abi_type option) \<Rightarrow> (string \<Rightarrow> js_number) \<Rightarrow> CallResult list \<Rightarrow>
     CallContext list \<Rightarrow> string list \<times> (js_error + MetaByContract)" where
  "decodeMetaResults fragmentTypes stringToNumber metaResults context =
     decodeMetaLoop fragmentTypes stringToNumber context 0 metaResults []"

text \<open>
  What the properties of the decoder speak about: whether the ABI decoding of an entry
  succeeds, whether return data is 32 bytes of zero-terminated ASCII and the text it then
  holds, the value an entry stores, a field of a contract's record, the console lines of
  a run, and whether an entry is the last one for its contract and method.
\<close>

definition abiDecodes :: "abi_type option \<Rightarrow> string \<Rightarrow> bool" where
  "abiDecodes ty d = (case abiDecode ty d of Inr _ \<Rightarrow> True | Inl _ \<Rightarrow> False)"

definition isBytes32Text :: "string \<Rightarrow> bool" where
  "isBytes32Text d =
     (case getBytes d of
        Inr data \<Rightarrow> length data = 32 \<and> data ! 31 = 0 \<and> list_all (\<lambda>b. unat b < 128) data
      | Inl _ \<Rightarrow> False)"

definition bytes32Text :: "string \<Rightarrow> string" where
  "bytes32Text d = map byteChar (take (bytes32Length (dataBytes d) 31) (dataBytes d))"

definition entryValue ::
  "(string \<Rightarrow> abi_type option) \<Rightarrow> (string \<Rightarrow> js_number) \<Rightarrow> CallContext \<Rightarrow> string \<Rightarrow> js_value" where
  "entryValue fragmentTypes stringToNumber c d =
     (let v = (case abiDecode (fragmentTypes (methodName c)) d of
                 Inr v \<Rightarrow> v
               | Inl _ \<Rightarrow> JString (bytes32Text d))
      in if methodName c = ''decimals'' then JNumber (Number stringToNumber v) else v)"

definition tokenField :: "'v obj obj \<Rightarrow> string \<Rightarrow> string \<Rightarrow> 'v option" where
  "tokenField meta address field =
     (case obj_get meta address of None \<Rightarrow> None | Some info \<Rightarrow> obj_get info field)"

definition diagnostics ::
  "(string \<Rightarrow> abi_type option) \<Rightarrow> CallResult list \<Rightarrow> CallContext list \<Rightarrow> string list" where
  "diagnostics fragmentTypes metaResults context =
     concat (map (\<lambda>(result, c).
                    if abiDecodes (fragmentTypes (methodName c)) (snd result) then []
                    else [problemDecoding (methodName c) (contractAddress c)])
               (zip metaResults context))"

definition lastFor :: "CallContext list \<Rightarrow> nat \<Rightarrow> nat \<Rightarrow> bool" where
  "lastFor context n i =
     list_all (\<lambda>j. \<not> (contractAddress (context ! j) = contractAddress (context ! i)
                       \<and> methodName (context ! j) = methodName (context ! i)))
       [Suc i..<n]"

subsection \<open>\<open>formatUnits\<close>\<close>

text \<open>
  \<^verbatim>\<open>formatUnits(value, unit)\<close> of ethers: the unit is a unit name (three decimals per
  position in the list of names), a number of decimals, which must be a safe integer, or
  absent (18 decimals). More than 80 decimals are refused. The value is held in a signed
  512-bit fixed-point format and printed by the library's \<^verbatim>\<open>toString(val, decimals)\<close>:
  \<^verbatim>\<open>str = val.toString(); if (decimals === 0) return str;
   while (str.length <= decimals) str = Zeros + str;
   index = str.length - decimals; str = str.substring(0, index) + "." + str.substring(index);
   while (str[0] === "0" && str[1] !== ".") str = str.substring(1);
   while (str[str.length - 1] === "0" && str[str.length - 2] !== ".")
     str = str.substring(0, str.length - 1);\<close>
  with the sign put in front. \<open>Zeros\<close> is the library's string of 128 zeros. The model
  takes the value as the integer that \<^verbatim>\<open>decoded.toString()\<close> prints and \<^verbatim>\<open>formatUnits\<close> reads
  back.
\<close>

definition maxSafeInteger :: int where
  "maxSafeInteger = 9007199254740991"

definition getNumber :: "js_value \<Rightarrow> js_error + int" where
  "getNumber v =
     (case v of
        JBigInt i \<Rightarrow>
          if - maxSafeInteger \<le> i \<and> i \<le> maxSafeInteger then Inr i
          else Inl (EthersError INVALID_ARGUMENT)
      | JNumber n \<Rightarrow>
          (case n of
             Finite q \<Rightarrow>
               if q \<noteq> of_int \<lfloor>q\<rfloor> then Inl (EthersError INVALID_ARGUMENT)
               else if - maxSafeInteger \<le> \<lfloor>q\<rfloor> \<and> \<lfloor>q\<rfloor> \<le> maxSafeInteger then Inr \<lfloor>q\<rfloor>
               else Inl (EthersError INVALID_ARGUMENT)
           | _ \<Rightarrow> Inl (EthersError INVALID_ARGUMENT))
      | _ \<Rightarrow> Inl (EthersError INVALID_ARGUMENT))"

definition unitNames :: "string list" where
  "unitNames = [''wei'', ''kwei'', ''mwei'', ''gwei'', ''szabo'', ''finney'', ''ether'']"

fun indexOf :: "'a list \<Rightarrow> 'a \<Rightarrow> nat option" where
  "indexOf [] x = None"
| "indexOf (y # ys) x = (if y = x then Some 0 else map_option Suc (indexOf ys x))"

definition unitDecimals :: "js_value option \<Rightarrow> js_error + int" where
  "unitDecimals unit =
     (case unit of
        None \<Rightarrow> Inr 18
      | Some (JString name) \<Rightarrow>
          (case indexOf unitNames name of
             Some index \<Rightarrow> Inr (3 * int index)
           | None \<Rightarrow> Inl (EthersError INVALID_ARGUMENT))
      | Some v \<Rightarrow> getNumber v)"

definition Zeros :: string where
  "Zeros = replicate 128 CHR ''0''"

function padWhole :: "string \<Rightarrow> int \<Rightarrow> string" where
  "padWhole str decimals =
     (if int (length str) \<le> decimals then padWhole (Zeros @ str) decimals else str)"
  by pat_completeness auto
termination
  by (relation "measure (\<lambda>(str, decimals). nat (decimals + 1 - int (length str)))")
     (simp_all add: Zeros_def)

declare padWhole.simps [simp del]

fun trimWhole :: "string \<Rightarrow> string" where
  "trimWhole (c0 # c1 # cs) =
     (if c0 = CHR ''0'' \<and> c1 \<noteq> CHR ''.'' then trimWhole (c1 # cs) else c0 # c1 # cs)"
| "trimWhole [c0] = (if c0 = CHR ''0'' then [] else [c0])"
| "trimWhole [] = []"

definition trimDecimal :: "string \<Rightarrow> string" where
  "trimDecimal str = rev (trimWhole (rev str))"

definition fixedToString :: "int \<Rightarrow> int \<Rightarrow> string" where
  "fixedToString val decimals =
     (let negative = (if val < 0 then ''-'' else '''');
          str = natToString (nat \<bar>val\<bar>)
      in if decimals = 0 then negative @ str
         else
           let str1 = padWhole str decimals;
               index = int (length str1) - decimals;
               str2 = take (nat index) str1 @ ''.'' @ drop (nat index) str1
           in negative @ trimDecimal (trimWhole str2))"

definition wrapSigned512 :: "int \<Rightarrow> int" where
  "wrapSigned512 val =
     (let fromTwos = (\<lambda>m. if 2 ^ 511 \<le> m then m - 2 ^ 512 else m)
      in if 0 < val then fromTwos (val mod 2 ^ 512) else - fromTwos ((- val) mod 2 ^ 512))"

definition formatUnits :: "int \<Rightarrow> js_value option \<Rightarrow> js_error + string" where
  "formatUnits val unit =
     (case unitDecimals unit of
        Inl e \<Rightarrow> Inl e
      | Inr decimals \<Rightarrow>
          if 80 < decimals then Inl (EthersError INVALID_ARGUMENT)
          else Inr (fixedToString (wrapSigned512 val) decimals))"

subsection \<open>\<open>balancesByContract\<close>\<close>

text \<open>
  One round of the \<^verbatim>\<open>reduce\<close> over \<^verbatim>\<open>Object.keys(metaDataByContract)\<close>: the raw balance of
  the contract (\<^verbatim>\<open>undefined\<close> when the balance object has no such key, which the decoder
  refuses) is decoded as a \<open>uint256\<close>, printed with \<^verbatim>\<open>formatUnits\<close> or as it is, and stored
  as \<open>balanceOf\<close> beside the contract's metadata.
\<close>

definition balancesStep ::
  "MetaByContract \<Rightarrow> string obj \<Rightarrow> bool \<Rightarrow> TokenInfo obj \<Rightarrow> string \<Rightarrow> js_error + TokenInfo obj" where
  "balancesStep metaDataByContract balanceDataByContract formatBalance balances address =
     (case obj_get metaDataByContract address of
        None \<Rightarrow> Inl TypeError
      | Some info \<Rightarrow>
          let decimals = obj_get info ''decimals'';
              balanceHexString = obj_get balanceDataByContract address
          in (case (case balanceHexString of
                      None \<Rightarrow> Inl (EthersError INVALID_ARGUMENT)
                    | Some d \<Rightarrow> abiDecode (Some (TUint 256)) d) of
                Inl e \<Rightarrow> Inl e
              | Inr decoded \<Rightarrow>
                  (case (case decoded of
                           JBigInt v \<Rightarrow>
                             if formatBalance then formatUnits v decimals
                             else Inr (bigintToString v)
                         | _ \<Rightarrow> Inl TypeError) of
                     Inl e \<Rightarrow> Inl e
                   | Inr balance \<Rightarrow>
                       Inr (obj_set balances address
                              (obj_set info ''balanceOf'' (JString balance))))))"

fun balancesLoop ::
  "MetaByContract \<Rightarrow> string obj \<Rightarrow> bool \<Rightarrow> string list \<Rightarrow> TokenInfo obj \<Rightarrow> js_error + TokenInfo obj" where
  "balancesLoop metaDataByContract balanceDataByContract formatBalance [] balances = Inr balances"
| "balancesLoop metaDataByContract balanceDataByContract formatBalance (address # rest) balances =
     (case balancesStep metaDataByContract balanceDataByContract formatBalance balances address of
        Inl e \<Rightarrow> Inl e
      | Inr balances' \<Rightarrow>
          balancesLoop metaDataByContract balanceDataByContract formatBalance rest balances')"

definition balancesByContract ::
  "MetaByContract \<Rightarrow> string obj \<Rightarrow> bool \<Rightarrow> js_error + TokenInfo obj" where
  "balancesByContract metaDataByContract balanceDataByContract formatBalance =
     balancesLoop metaDataByContract balanceDataByContract formatBalance
       (obj_keys metaDataByContract) []"

text \<open>
  What the properties of the normalizer speak about: the balance string of one contract,
  the record one round stores, the condition under which a round succeeds, the \<open>d\<close>
  decimal digits of \<open>v mod 10 ^ d\<close>, and a digit string without its trailing zeros (one
  digit is always kept).
\<close>

definition balanceString :: "bool \<Rightarrow> int \<Rightarrow> js_value option \<Rightarrow> js_error + string" where
  "balanceString formatBalance v decimals =
     (if formatBalance then formatUnits v decimals else Inr (bigintToString v))"

definition normalizable :: "MetaByContract \<Rightarrow> string obj \<Rightarrow> bool \<Rightarrow> string \<Rightarrow> bool" where
  "normalizable meta balanceData formatBalance address =
     (case (obj_get meta address, obj_get balanceData address) of
        (Some info, Some d) \<Rightarrow>
          (case getBytes d of
             Inr bytes \<Rightarrow>
               32 \<le> length bytes
               \<and> (formatBalance \<longrightarrow>
                    (case unitDecimals (obj_get info ''decimals'') of
                       Inr decimals \<Rightarrow> decimals \<le> 80
                     | Inl _ \<Rightarrow> False))
           | Inl _ \<Rightarrow> False)
      | _ \<Rightarrow> False)"

definition balanceEntry :: "MetaByContract \<Rightarrow> string obj \<Rightarrow> bool \<Rightarrow> string \<Rightarrow> js_error + TokenInfo" where
  "balanceEntry meta balanceData formatBalance address =
     (case obj_get meta address of
        None \<Rightarrow> Inl TypeError
      | Some info \<Rightarrow>
          (case obj_get balanceData address of
             None \<Rightarrow> Inl (EthersError INVALID_ARGUMENT)
           | Some d \<Rightarrow>
               (case abiDecode (Some (TUint 256)) d of
                  Inl e \<Rightarrow> Inl e
                | Inr decoded \<Rightarrow>
                    (case decoded of
                       JBigInt v \<Rightarrow>
                         (case balanceString formatBalance v (obj_get info ''decimals'') of
                            Inl e \<Rightarrow> Inl e
                          | Inr balance \<Rightarrow> Inr (obj_set info ''balanceOf'' (JString balance)))
                     | _ \<Rightarrow> Inl TypeError))))"

fun fracDigits :: "nat \<Rightarrow> nat \<Rightarrow> string" where
  "fracDigits 0 v = []"
| "fracDigits (Suc d) v = fracDigits d (v div 10) @ [''0123456789'' ! (v mod 10)]"

definition stripZeros :: "string \<Rightarrow> string" where
  "stripZeros f =
     (let g = rev (dropWhile (\<lambda>c. c = CHR ''0'') (rev f)) in if g = [] then ''0'' else g)"

section \<open>Properties\<close>

subsection \<open>The chunker\<close>

lemma chunk_step_concat:
  "chunk_step sz st item = (c', k') \<Longrightarrow> concat c' @ k' = concat (fst st) @ snd st @ [item]"
  by (auto simp: chunk_step_def split: prod.splits if_splits)

lemma chunk_loop_concat:
  "foldl (chunk_step sz) ([], []) array = (c, k) \<Longrightarrow> concat c @ k = array"
proof (induction array arbitrary: c k rule: rev_induct)
  case Nil
  then show ?case by simp
next
  case (snoc x xs)
  obtain c0 k0 where st: "foldl (chunk_step sz) ([], []) xs = (c0, k0)"
    by (cases "foldl (chunk_step sz) ([], []) xs")
  with snoc.prems have "chunk_step sz (c0, k0) x = (c, k)" by simp
  from chunk_step_concat [OF this] snoc.IH [OF st] show ?case by simp
qed

lemma concat_chunk: "concat (chunk array sz) = array"
proof -
  obtain c k where st: "foldl (chunk_step sz) ([], []) array = (c, k)"
    by (cases "foldl (chunk_step sz) ([], []) array")
  from chunk_loop_concat [OF st] show ?thesis
    by (auto simp: chunk_def st)
qed

lemma chunk_inv_step: "0 < sz \<Longrightarrow> chunk_inv sz st \<Longrightarrow> chunk_inv sz (chunk_step sz st item)"
  by (cases st) (auto simp: chunk_inv_def chunk_step_def)

lemma chunk_inv_loop: "0 < sz \<Longrightarrow> chunk_inv sz (foldl (chunk_step sz) ([], []) array)"
proof (induction array rule: rev_induct)
  case Nil
  then show ?case by (simp add: chunk_inv_def)
next
  case (snoc x xs)
  then show ?case by (simp add: chunk_inv_step)
qed

lemma chunk_groups:
  assumes "0 < sz"
  shows "list_all (\<lambda>g. int (length g) = sz) (butlast (chunk array sz))"
    and "list_all (\<lambda>g. g \<noteq> [] \<and> int (length g) \<le> sz) (chunk array sz)"
proof -
  obtain c k where st: "foldl (chunk_step sz) ([], []) array = (c, k)"
    by (cases "foldl (chunk_step sz) ([], []) array")
  from chunk_inv_loop [OF assms, of array] have inv: "chunk_inv sz (c, k)"
    by (simp add: st)
  from inv show "list_all (\<lambda>g. int (length g) = sz) (butlast (chunk array sz))"
    by (auto simp: chunk_def st chunk_inv_def butlast_append list_all_iff dest: in_set_butlastD)
  from inv assms show "list_all (\<lambda>g. g \<noteq> [] \<and> int (length g) \<le> sz) (chunk array sz)"
    by (auto simp: chunk_def st chunk_inv_def list_all_iff)
qed

lemma chunk_Nil: "chunk [] sz = []"
  by (simp add: chunk_def)

lemma chunk_neg_loop: "sz < 0 \<Longrightarrow> foldl (chunk_step sz) ([], []) array = ([], array)"
  by (induction array rule: rev_induct) (auto simp: chunk_step_def)

lemma chunk_zero_loop: "array \<noteq> [] \<Longrightarrow> foldl (chunk_step 0) ([], []) array = ([[]], array)"
proof (induction array rule: rev_induct)
  case Nil
  then show ?case by simp
next
  case (snoc x xs)
  show ?case
  proof (cases "xs = []")
    case True
    then show ?thesis by (simp add: chunk_step_def)
  next
    case False
    with snoc.IH show ?thesis by (simp add: chunk_step_def)
  qed
qed

text \<open>
  Claim C2. For every sequence \<open>S\<close> and every integer size \<open>n > 0\<close>: concatenating the
  groups of \<open>chunk S n\<close> gives back \<open>S\<close>; every group but the last has exactly \<open>n\<close> items,
  and every group (the last one too) is non-empty with at most \<open>n\<close> items; chunking the
  empty sequence gives no group at all, not one empty group.
\<close>

theorem chunk_positive_size:
  assumes "0 < n"
  shows "concat (chunk S n) = S
       \<and> list_all (\<lambda>g. int (length g) = n) (butlast (chunk S n))
       \<and> list_all (\<lambda>g. g \<noteq> [] \<and> int (length g) \<le> n) (chunk S n)
       \<and> chunk ([] :: 'a list) n = []"
  using assms by (simp add: concat_chunk chunk_groups chunk_Nil)

theorem chunk_positive_size_witness:
  "(0::int) < 2
   \<and> concat (chunk [1, 2, 3, 4, 5 :: nat] 2) = [1, 2, 3, 4, 5]
   \<and> list_all (\<lambda>g. int (length g) = 2) (butlast (chunk [1, 2, 3, 4, 5 :: nat] 2))
   \<and> list_all (\<lambda>g. g \<noteq> [] \<and> int (length g) \<le> 2) (chunk [1, 2, 3, 4, 5 :: nat] 2)
   \<and> chunk ([] :: nat list) 2 = []
   \<and> chunk [1, 2, 3, 4, 5 :: nat] 2 = [[1, 2], [3, 4], [5]]"
proof -
  have pos: "(0::int) < 2" by simp
  have run: "chunk [1, 2, 3, 4, 5 :: nat] 2 = [[1, 2], [3, 4], [5]]"
    by (simp add: chunk_def chunk_step_def)
  from chunk_positive_size [OF pos, of "[1, 2, 3, 4, 5 :: nat]"] pos run
  show ?thesis by simp
qed

text \<open>
  Claim C8. \<open>chunk\<close> is total for every integer size, \<open>size \<le> 0\<close> included: the loop runs
  once over the input, and the concatenation of its output is the input again. For a
  negative size and a non-empty input the result is the single group of all items; for
  size \<open>0\<close> and a non-empty input it is an empty group followed by the group of all items.
\<close>

theorem chunk_any_size:
  "concat (chunk S n) = S
   \<and> (n < 0 \<and> S \<noteq> [] \<longrightarrow> chunk S n = [S])
   \<and> (S \<noteq> [] \<longrightarrow> chunk S 0 = [[], S])"
  by (simp add: concat_chunk) (simp add: chunk_def chunk_neg_loop chunk_zero_loop)

theorem chunk_any_size_witness:
  "concat (chunk [7, 8, 9 :: nat] (- 3)) = [7, 8, 9]
   \<and> chunk [7, 8, 9 :: nat] (- 3) = [[7, 8, 9]]
   \<and> chunk [7, 8, 9 :: nat] 0 = [[], [7, 8, 9]]"
  using chunk_any_size [of "[7, 8, 9 :: nat]" "- 3"] by simp

subsection \<open>Hex strings and the bytes they stand for\<close>

lemma hexPairs_length: "hexPairs cs = Some bs \<Longrightarrow> length cs = 2 * length bs"
  by (induction cs arbitrary: bs rule: hexPairs.induct) (auto split: option.splits)

lemma hexDigit_less: "hexDigit c = Some h \<Longrightarrow> h < 16"
  by (auto simp: hexDigit_def upt_rec split: if_splits)

lemma hexDigit_zero: "hexDigit c = Some 0 \<Longrightarrow> c = CHR ''0''"
  by (simp add: hexDigit_def upt_rec split: if_splits)

lemma byte_of_nibbles_zero:
  assumes "h < 16" "l < 16" "(of_nat (16 * h + l) :: byte) = 0"
  shows "h = 0 \<and> l = 0"
proof -
  from assms(3) have "2 ^ LENGTH(8) dvd 16 * h + l"
    by (simp only: word_of_nat_eq_0_iff)
  then have "256 dvd 16 * h + l" by simp
  moreover from assms(1,2) have "16 * h + l < 256" by simp
  ultimately have "16 * h + l = 0" by (meson dvd_imp_le not_le zero_less_iff_neq_zero)
  then show ?thesis by simp
qed

lemma hexPairs_zero: "hexPairs cs = Some (replicate n 0) \<Longrightarrow> cs = replicate (2 * n) CHR ''0''"
proof (induction cs arbitrary: n rule: hexPairs.induct)
  case 1
  then show ?case by simp
next
  case (2 c)
  then show ?case by simp
next
  case (3 c d cs)
  from "3.prems" obtain h l bs where hl: "hexDigit c = Some h" "hexDigit d = Some l"
    and bs: "hexPairs cs = Some bs" and eq: "replicate n (0::byte) = of_nat (16 * h + l) # bs"
    by (auto split: option.splits)
  from eq obtain m where n: "n = Suc m" and z: "(of_nat (16 * h + l) :: byte) = 0"
    and bs': "bs = replicate m 0"
    by (cases n) auto
  from byte_of_nibbles_zero [OF hexDigit_less [OF hl(1)] hexDigit_less [OF hl(2)] z]
  have "h = 0" "l = 0" by simp_all
  with hl have "c = CHR ''0''" "d = CHR ''0''" by (simp_all add: hexDigit_zero)
  moreover from "3.IH" bs bs' have "cs = replicate (2 * m) CHR ''0''" by simp
  ultimately show ?case by (simp add: n)
qed

lemma ZeroHash_replicate: "ZeroHash = ''0x'' @ replicate 64 CHR ''0''"
  by (simp add: ZeroHash_def eval_nat_numeral)

lemma length_ZeroHash: "length ZeroHash = 66"
  by (simp add: ZeroHash_def)

lemma getBytes_ZeroHash: "getBytes ZeroHash = Inr (replicate 32 0)"
  by (simp add: ZeroHash_def getBytes_def hexDigit_def eval_nat_numeral)

lemma getBytes_length: "getBytes d = Inr bs \<Longrightarrow> length d = 2 + 2 * length bs"
  by (auto simp: getBytes_def hexPairs_length split: list.splits if_splits option.splits)

lemma getBytes_zero32: "getBytes d = Inr (replicate 32 0) \<Longrightarrow> take 2 d = ''0x'' \<Longrightarrow> d = ZeroHash"
  by (auto simp: getBytes_def ZeroHash_replicate dest!: hexPairs_zero
      split: list.splits if_splits option.splits)

lemma isBytesLike_iff: "isBytesLike d \<longleftrightarrow> (\<exists>bs. getBytes d = Inr bs)"
  by (cases "getBytes d") (simp_all add: isBytesLike_def)

subsection \<open>The balance result filter\<close>

lemma filter_test_bytes:
  assumes "getBytes d = Inr bs" and "take 2 d = ''0x''"
  shows "(d \<noteq> ZeroHash \<and> length d = length ZeroHash) = (bs \<noteq> replicate 32 0 \<and> length bs = 32)"
proof -
  have "d = ZeroHash \<longleftrightarrow> bs = replicate 32 0"
    using assms getBytes_zero32 getBytes_ZeroHash by auto
  moreover have "length d = length ZeroHash \<longleftrightarrow> length bs = 32"
    using getBytes_length [OF assms(1)] by (simp add: length_ZeroHash)
  ultimately show ?thesis by simp
qed

lemma associate_equal_length:
  assumes "length results = length contractAddresses"
  shows "map (\<lambda>(result, index). (nth_opt contractAddresses index, fst result, snd result))
           (zip results [0..<length results])
       = map (\<lambda>(a, r). (Some a, fst r, snd r)) (zip contractAddresses results)"
  using assms by (intro nth_equalityI) (simp_all add: nth_opt_def)

lemma getNonZeroResults_strings:
  assumes len: "length results = length contractAddresses"
  shows "getNonZeroResults results contractAddresses
       = map (\<lambda>(a, r). (Some a, fst r, snd r))
           (filter (\<lambda>(a, r). snd r \<noteq> ZeroHash \<and> length (snd r) = 66)
              (zip contractAddresses results))"
proof -
  have "filter ((\<lambda>(_, _, data).
               let hasBalance = (data \<noteq> ZeroHash);
                   expectedFormat = (length data = length ZeroHash)
               in hasBalance \<and> expectedFormat) \<circ> (\<lambda>(a, r). (Some a, fst r, snd r)))
          (zip contractAddresses results)
      = filter (\<lambda>(a, r). snd r \<noteq> ZeroHash \<and> length (snd r) = 66)
          (zip contractAddresses results)"
    by (rule filter_cong [OF refl]) (simp add: case_prod_unfold length_ZeroHash)
  then show ?thesis
    unfolding getNonZeroResults_def associate_equal_length [OF len] filter_map
    by (simp only:)
qed

lemma getNonZeroResults_bytes:
  assumes len: "length results = length contractAddresses"
    and hex: "list_all (\<lambda>r. isBytesLike (snd r) \<and> take 2 (snd r) = ''0x'') results"
  shows "getNonZeroResults results contractAddresses
       = map (\<lambda>(a, r). (Some a, fst r, snd r))
           (filter (\<lambda>(a, r). dataBytes (snd r) \<noteq> replicate 32 0 \<and> length (dataBytes (snd r)) = 32)
              (zip contractAddresses results))"
proof -
  have test: "(snd r \<noteq> ZeroHash \<and> length (snd r) = 66)
      = (dataBytes (snd r) \<noteq> replicate 32 0 \<and> length (dataBytes (snd r)) = 32)"
    if "(a, r) \<in> set (zip contractAddresses results)" for a r
  proof -
    from that have "r \<in> set results" by (rule set_zip_rightD)
    with hex obtain bs where "getBytes (snd r) = Inr bs" and "take 2 (snd r) = ''0x''"
      by (auto simp: isBytesLike_iff list_all_iff)
    then show ?thesis
      using filter_test_bytes [of "snd r" bs] by (simp add: dataBytes_def length_ZeroHash)
  qed
  have "filter (\<lambda>(a, r). snd r \<noteq> ZeroHash \<and> length (snd r) = 66) (zip contractAddresses results)
      = filter (\<lambda>(a, r). dataBytes (snd r) \<noteq> replicate 32 0 \<and> length (dataBytes (snd r)) = 32)
          (zip contractAddresses results)"
  proof (rule filter_cong [OF refl])
    fix x assume x: "x \<in> set (zip contractAddresses results)"
    obtain a r where xr: "x = (a, r)" by (cases x)
    from test [of a r] x show "(\<lambda>(a, r). snd r \<noteq> ZeroHash \<and> length (snd r) = 66) x
        = (\<lambda>(a, r). dataBytes (snd r) \<noteq> replicate 32 0 \<and> length (dataBytes (snd r)) = 32) x"
      by (simp add: xr)
  qed
  then show ?thesis
    unfolding getNonZeroResults_strings [OF len] by (simp only:)
qed

lemma getNonZeroResults_example:
  "getNonZeroResults
     [(True, ZeroHash),
      (True, ''0x0000000000000000000000000000000000000000000000000000000000000001''),
      (True, ''0xdead'')] [A, B, C]
   = [(Some B, True, ''0x0000000000000000000000000000000000000000000000000000000000000001'')]"
  by (simp add: getNonZeroResults_def nth_opt_def ZeroHash_def upt_rec)

text \<open>
  Claim C1, as stated, has the filter drop every entry whose return data is the all-zero
  32-byte value. The filter compares the return data, a string, with the one string
  \<^verbatim>\<open>ZeroHash\<close>. The same 32 zero bytes written with the prefix \<^verbatim>\<open>0X\<close>, which ethers reads
  as byte data like any other hex string, are another string of the same length: the
  entry is kept.
\<close>

theorem getNonZeroResults_keeps_upper_prefixed_zero_word:
  "isBytesLike ''0X0000000000000000000000000000000000000000000000000000000000000000''
   \<and> dataBytes ''0X0000000000000000000000000000000000000000000000000000000000000000'' = replicate 32 0
   \<and> getNonZeroResults
        [(True, ''0X0000000000000000000000000000000000000000000000000000000000000000'')] [''0xA'']
      = [(Some ''0xA'', True, ''0X0000000000000000000000000000000000000000000000000000000000000000'')]"
  by (simp add: isBytesLike_def dataBytes_def getBytes_def hexDigit_def eval_nat_numeral
      getNonZeroResults_def nth_opt_def ZeroHash_def)

text \<open>
  Claim C1, amended. For equally long lists of call results and contract addresses whose
  return data are hex strings of bytes with the lower-case prefix \<^verbatim>\<open>0x\<close> (the form in which
  ethers delivers the results of the multicall): \<open>getNonZeroResults\<close> keeps the entry at an
  index exactly when its bytes are not the 32 zero bytes and are 32 in number; the kept
  entries stay in input order, each with the contract address of its index (the output
  is the filtered list of address-result pairs). For return data of any kind, the entry
  is kept exactly when the string differs from \<^verbatim>\<open>ZeroHash\<close> and has its 66 characters. For
  the results \<open>[(true, 32 zero bytes), (true, 32 bytes ending in 01), (true, 0xdead)]\<close> and
  the addresses \<open>[A, B, C]\<close> the output is \<open>[(B, true, the 32 bytes ending in 01)]\<close>.
\<close>

theorem getNonZeroResults_keeps_nonzero_words:
  "(length results = length contractAddresses
      \<and> list_all (\<lambda>r. isBytesLike (snd r) \<and> take 2 (snd r) = ''0x'') results \<longrightarrow>
      getNonZeroResults results contractAddresses
      = map (\<lambda>(a, r). (Some a, fst r, snd r))
          (filter (\<lambda>(a, r). dataBytes (snd r) \<noteq> replicate 32 0 \<and> length (dataBytes (snd r)) = 32)
             (zip contractAddresses results)))
   \<and> (length results = length contractAddresses \<longrightarrow>
      getNonZeroResults results contractAddresses
      = map (\<lambda>(a, r). (Some a, fst r, snd r))
          (filter (\<lambda>(a, r). snd r \<noteq> ZeroHash \<and> length (snd r) = 66)
             (zip contractAddresses results)))
   \<and> getNonZeroResults
        [(True, ''0x0000000000000000000000000000000000000000000000000000000000000000''),
         (True, ''0x0000000000000000000000000000000000000000000000000000000000000001''),
         (True, ''0xdead'')] [A, B, C]
      = [(Some B, True, ''0x0000000000000000000000000000000000000000000000000000000000000001'')]"
  using getNonZeroResults_bytes [of results contractAddresses]
    getNonZeroResults_strings [of results contractAddresses] getNonZeroResults_example [of A B C]
  by (simp add: ZeroHash_def)

theorem getNonZeroResults_keeps_nonzero_words_witness:
  "length [(True, ''0x0000000000000000000000000000000000000000000000000000000000000000''),
           (False, ''0x''),
           (True, ''0x00000000000000000000000000000000000000000000000000000000000001F4'')]
     = length [''0xA'', ''0xB'', ''0xC'']
   \<and> list_all (\<lambda>r. isBytesLike (snd r) \<and> take 2 (snd r) = ''0x'')
        [(True, ''0x0000000000000000000000000000000000000000000000000000000000000000''),
         (False, ''0x''),
         (True, ''0x00000000000000000000000000000000000000000000000000000000000001F4'')]
   \<and> getNonZeroResults
        [(True, ''0x0000000000000000000000000000000000000000000000000000000000000000''),
         (False, ''0x''),
         (True, ''0x00000000000000000000000000000000000000000000000000000000000001F4'')]
        [''0xA'', ''0xB'', ''0xC'']
      = [(Some ''0xC'', True,
          ''0x00000000000000000000000000000000000000000000000000000000000001F4'')]"
proof -
  let ?rs = "[(True, ''0x0000000000000000000000000000000000000000000000000000000000000000''),
              (False, ''0x''),
              (True, ''0x00000000000000000000000000000000000000000000000000000000000001F4'')]"
  have hex: "list_all (\<lambda>r. isBytesLike (snd r) \<and> take 2 (snd r) = ''0x'') ?rs"
    by (simp add: isBytesLike_def getBytes_def hexDigit_def upt_rec)
  have bytes: "dataBytes ''0x0000000000000000000000000000000000000000000000000000000000000000''
        = replicate 32 0"
      "dataBytes ''0x'' = []"
      "dataBytes ''0x00000000000000000000000000000000000000000000000000000000000001F4''
        = replicate 30 0 @ [1, 244]"
    by (simp_all add: dataBytes_def getBytes_def hexDigit_def upt_rec eval_nat_numeral)
  from getNonZeroResults_keeps_nonzero_words [of ?rs "[''0xA'', ''0xB'', ''0xC'']"] hex
  show ?thesis
    by (simp add: bytes) (simp add: eval_nat_numeral)
qed

subsection \<open>Objects\<close>

lemma obj_get_set: "obj_get (obj_set ob k v) k' = (if k' = k then Some v else obj_get ob k')"
  by (induction ob) (auto simp: obj_get_def)

lemma map_fst_obj_set:
  "map fst (obj_set ob k v) = (if k \<in> fst ` set ob then map fst ob else map fst ob @ [k])"
proof (induction ob)
  case Nil
  then show ?case by simp
next
  case (Cons p ob)
  obtain k' v' where p: "p = (k', v')" by (cases p)
  show ?case
  proof (cases "k' = k")
    case True
    then show ?thesis by (simp add: p)
  next
    case False
    with Cons show ?thesis by (simp add: p)
  qed
qed

lemma keys_obj_set: "fst ` set (obj_set ob k v) = insert k (fst ` set ob)"
proof -
  have "set (map fst (obj_set ob k v)) = insert k (fst ` set ob)"
    unfolding map_fst_obj_set by auto
  then show ?thesis by simp
qed

lemma distinct_obj_set: "distinct (map fst ob) \<Longrightarrow> distinct (map fst (obj_set ob k v))"
  unfolding map_fst_obj_set by auto

lemma set_obj_keys: "set (obj_keys ob) = fst ` set ob"
  by (auto simp: obj_keys_def)

lemma distinct_obj_keys: "distinct (map fst ob) \<Longrightarrow> distinct (obj_keys ob)"
  by (auto simp: obj_keys_def distinct_map_filter)

lemma length_obj_keys: "length (obj_keys ob) = length ob"
  using sum_length_filter_compl [of isArrayIndex "map fst ob"] by (simp add: obj_keys_def)

lemma obj_get_None: "obj_get ob k = None \<longleftrightarrow> k \<notin> set (obj_keys ob)"
  by (simp add: obj_get_def set_obj_keys map_of_eq_None_iff)

subsection \<open>Raw results by contract\<close>

lemma rdbc_snoc:
  "resultDataByContract (rs @ [(a, s, d)]) = obj_set (resultDataByContract rs) a d"
  by (simp add: resultDataByContract_def)

lemma rdbc_keys: "fst ` set (resultDataByContract rs) = fst ` set rs"
proof (induction rs rule: rev_induct)
  case Nil
  then show ?case by (simp add: resultDataByContract_def)
next
  case (snoc r rs)
  obtain a s d where r: "r = (a, s, d)" by (cases r)
  from snoc show ?case
    by (simp add: r rdbc_snoc keys_obj_set)
qed

lemma rdbc_distinct: "distinct (map fst (resultDataByContract rs))"
proof (induction rs rule: rev_induct)
  case Nil
  then show ?case by (simp add: resultDataByContract_def)
next
  case (snoc r rs)
  obtain a s d where r: "r = (a, s, d)" by (cases r)
  from snoc show ?case by (simp add: r rdbc_snoc distinct_obj_set)
qed

lemma rdbc_last:
  "a \<notin> fst ` set post \<Longrightarrow> obj_get (resultDataByContract (pre @ (a, s, d) # post)) a = Some d"
proof (induction post rule: rev_induct)
  case Nil
  then show ?case by (simp add: rdbc_snoc obj_get_set)
next
  case (snoc r post)
  obtain a' s' d' where r: "r = (a', s', d')" by (cases r)
  from snoc.prems have "a' \<noteq> a" "a \<notin> fst ` set post" by (auto simp: r)
  with snoc.IH have "obj_get (resultDataByContract (pre @ (a, s, d) # post)) a = Some d" by simp
  with \<open>a' \<noteq> a\<close> rdbc_snoc [of "pre @ (a, s, d) # post" a' s' d'] show ?case
    by (simp add: r obj_get_set)
qed

text \<open>
  Claim C9. For every list of associated call results, \<open>resultDataByContract\<close> returns an
  object with exactly one key per distinct contract address of the input (its keys are
  pairwise different, they are the addresses of the input, and they are as many as the
  distinct addresses); when several entries share an address, the return data of the last
  of them is what the key holds.
\<close>

theorem resultDataByContract_last_wins:
  "distinct (obj_keys (resultDataByContract rs))
   \<and> set (obj_keys (resultDataByContract rs)) = fst ` set rs
   \<and> length (obj_keys (resultDataByContract rs)) = card (fst ` set rs)
   \<and> (rs = pre @ (a, s, d) # post \<and> a \<notin> fst ` set post \<longrightarrow>
        obj_get (resultDataByContract rs) a = Some d)"
proof -
  have d: "distinct (obj_keys (resultDataByContract rs))"
    by (rule distinct_obj_keys [OF rdbc_distinct])
  have k: "set (obj_keys (resultDataByContract rs)) = fst ` set rs"
    by (simp add: set_obj_keys rdbc_keys)
  from distinct_card [OF d] k
  have "length (obj_keys (resultDataByContract rs)) = card (fst ` set rs)" by simp
  with d k show ?thesis by (auto simp: rdbc_last)
qed

theorem resultDataByContract_last_wins_witness:
  "[(''0xA'', True, ''0x01''), (''0xB'', True, ''0x02''), (''0xA'', False, ''0x03'')]
     = [(''0xA'', True, ''0x01''), (''0xB'', True, ''0x02'')] @ (''0xA'', False, ''0x03'') # []
   \<and> ''0xA'' \<notin> fst ` set ([] :: AssociatedCallResult list)
   \<and> obj_get (resultDataByContract
        [(''0xA'', True, ''0x01''), (''0xB'', True, ''0x02''), (''0xA'', False, ''0x03'')]) ''0xA''
      = Some ''0x03''
   \<and> obj_keys (resultDataByContract
        [(''0xA'', True, ''0x01''), (''0xB'', True, ''0x02''), (''0xA'', False, ''0x03'')])
      = [''0xA'', ''0xB'']"
proof -
  have keys: "obj_keys (resultDataByContract
        [(''0xA'', True, ''0x01''), (''0xB'', True, ''0x02''), (''0xA'', False, ''0x03'')])
      = [''0xA'', ''0xB'']"
    by (simp add: resultDataByContract_def obj_keys_def isArrayIndex_def isDigit_def)
  from resultDataByContract_last_wins
    [of "[(''0xA'', True, ''0x01''), (''0xB'', True, ''0x02''), (''0xA'', False, ''0x03'')]"
        "[(''0xA'', True, ''0x01''), (''0xB'', True, ''0x02'')]" "''0xA''" False "''0x03''" "[]"]
    keys
  show ?thesis by simp
qed


subsection \<open>The metadata call builder\<close>

lemma length_concat_map3: "length (concat (map (\<lambda>x. map (f x) [a, b, c]) xs)) = 3 * length xs"
  by (induction xs) simp_all

lemma nth_concat_map3:
  "i < 3 * length xs \<Longrightarrow>
     concat (map (\<lambda>x. map (f x) [a, b, c]) xs) ! i = f (xs ! (i div 3)) ([a, b, c] ! (i mod 3))"
proof (induction xs arbitrary: i)
  case Nil
  then show ?case by simp
next
  case (Cons x xs)
  show ?case
  proof (cases "i < 3")
    case True
    then have "i = 0 \<or> i = 1 \<or> i = 2" by arith
    then show ?thesis by auto
  next
    case False
    then obtain j where i: "i = j + 3" by (metis add.commute le_Suc_ex not_less)
    with Cons.prems have "j < 3 * length xs" by simp
    from Cons.IH [OF this] show ?thesis
      by (simp add: i nth_append)
  qed
qed

lemma buildCallsContext_lengths:
  "length (fst (buildCallsContext enc rs)) = 3 * length rs"
  "length (snd (buildCallsContext enc rs)) = 3 * length rs"
  using length_concat_map3 [of "\<lambda>a m. \<lparr>target = a, callData = enc m\<rparr>" _ _ _ "map fst rs"]
    length_concat_map3 [of "\<lambda>a m. \<lparr>contractAddress = a, methodName = m\<rparr>" _ _ _ "map fst rs"]
  by (simp_all add: buildCallsContext_def)

lemma buildCallsContext_nth:
  assumes "i < 3 * length rs"
  shows "fst (buildCallsContext enc rs) ! i
           = \<lparr>target = fst (rs ! (i div 3)),
              callData = enc ([''symbol'', ''decimals'', ''name''] ! (i mod 3))\<rparr>"
    and "snd (buildCallsContext enc rs) ! i
           = \<lparr>contractAddress = fst (rs ! (i div 3)),
              methodName = [''symbol'', ''decimals'', ''name''] ! (i mod 3)\<rparr>"
proof -
  from assms have i: "i < 3 * length (map fst rs)" and j: "i div 3 < length rs" by simp_all
  show "fst (buildCallsContext enc rs) ! i
           = \<lparr>target = fst (rs ! (i div 3)),
              callData = enc ([''symbol'', ''decimals'', ''name''] ! (i mod 3))\<rparr>"
    using nth_concat_map3 [OF i, of "\<lambda>a m. \<lparr>target = a, callData = enc m\<rparr>"] j
    by (simp add: buildCallsContext_def)
  show "snd (buildCallsContext enc rs) ! i
           = \<lparr>contractAddress = fst (rs ! (i div 3)),
              methodName = [''symbol'', ''decimals'', ''name''] ! (i mod 3)\<rparr>"
    using nth_concat_map3 [OF i, of "\<lambda>a m. \<lparr>contractAddress = a, methodName = m\<rparr>"] j
    by (simp add: buildCallsContext_def)
qed

text \<open>
  Claim C3, as stated, asks for exactly 3 calls for each distinct contract address. The
  builder does not merge entries: an address that occurs in two entries gets 6 calls.
\<close>

theorem buildCallsContext_repeated_address:
  "remdups (map fst [(''0xA'', True, ''0x01''), (''0xA'', True, ''0x02'')]) = [''0xA'']
   \<and> map target (fst (buildCallsContext erc20Selectors
        [(''0xA'', True, ''0x01''), (''0xA'', True, ''0x02'')]))
      = [''0xA'', ''0xA'', ''0xA'', ''0xA'', ''0xA'', ''0xA'']
   \<and> map methodName (snd (buildCallsContext erc20Selectors
        [(''0xA'', True, ''0x01''), (''0xA'', True, ''0x02'')]))
      = [''symbol'', ''decimals'', ''name'', ''symbol'', ''decimals'', ''name'']"
  by (simp add: buildCallsContext_def)

text \<open>
  Claim C3, amended. For every list of associated call results, \<open>buildCallsContext\<close>
  emits for each entry of the input, in input order and once per entry (an address
  occurring in several entries is served once for each of them), exactly 3 calls,
  encoding \<open>symbol()\<close>, \<open>decimals()\<close>, \<open>name()\<close> without arguments in that order, and 3
  parallel context entries: call \<open>i\<close> and context entry \<open>i\<close> belong to entry \<open>i div 3\<close> and
  to method \<open>i mod 3\<close>, so the target of call \<open>i\<close> is the contract address of context
  entry \<open>i\<close> and its call data encodes the method that context entry names. For 2
  entries the builder emits exactly 6 calls and 6 context entries.
\<close>

theorem buildCallsContext_three_per_entry:
  "length (fst (buildCallsContext enc rs)) = 3 * length rs
   \<and> length (snd (buildCallsContext enc rs)) = 3 * length rs
   \<and> (i < 3 * length rs \<longrightarrow>
        target (fst (buildCallsContext enc rs) ! i) = fst (rs ! (i div 3))
      \<and> callData (fst (buildCallsContext enc rs) ! i)
          = enc ([''symbol'', ''decimals'', ''name''] ! (i mod 3))
      \<and> contractAddress (snd (buildCallsContext enc rs) ! i) = fst (rs ! (i div 3))
      \<and> methodName (snd (buildCallsContext enc rs) ! i)
          = [''symbol'', ''decimals'', ''name''] ! (i mod 3)
      \<and> target (fst (buildCallsContext enc rs) ! i)
          = contractAddress (snd (buildCallsContext enc rs) ! i)
      \<and> callData (fst (buildCallsContext enc rs) ! i)
          = enc (methodName (snd (buildCallsContext enc rs) ! i)))
   \<and> (length rs = 2 \<longrightarrow>
        length (fst (buildCallsContext enc rs)) = 6 \<and> length (snd (buildCallsContext enc rs)) = 6)"
  by (simp add: buildCallsContext_lengths buildCallsContext_nth)

theorem buildCallsContext_three_per_entry_witness:
  "(4::nat) < 3 * length [(''0xA'', True, ''0x01''), (''0xB'', True, ''0x02'')]
   \<and> length [(''0xA'', True, ''0x01''), (''0xB'', True, ''0x02'')] = 2
   \<and> length (fst (buildCallsContext erc20Selectors
        [(''0xA'', True, ''0x01''), (''0xB'', True, ''0x02'')])) = 6
   \<and> length (snd (buildCallsContext erc20Selectors
        [(''0xA'', True, ''0x01''), (''0xB'', True, ''0x02'')])) = 6
   \<and> fst (buildCallsContext erc20Selectors
        [(''0xA'', True, ''0x01''), (''0xB'', True, ''0x02'')]) ! 4
      = \<lparr>target = ''0xB'', callData = ''0x313ce567''\<rparr>
   \<and> snd (buildCallsContext erc20Selectors
        [(''0xA'', True, ''0x01''), (''0xB'', True, ''0x02'')]) ! 4
      = \<lparr>contractAddress = ''0xB'', methodName = ''decimals''\<rparr>"
proof -
  have run: "fst (buildCallsContext erc20Selectors
        [(''0xA'', True, ''0x01''), (''0xB'', True, ''0x02'')]) ! 4
      = \<lparr>target = ''0xB'', callData = ''0x313ce567''\<rparr>"
    "snd (buildCallsContext erc20Selectors
        [(''0xA'', True, ''0x01''), (''0xB'', True, ''0x02'')]) ! 4
      = \<lparr>contractAddress = ''0xB'', methodName = ''decimals''\<rparr>"
    by (simp_all add: buildCallsContext_def erc20Selectors_def)
  from buildCallsContext_three_per_entry
    [of erc20Selectors "[(''0xA'', True, ''0x01''), (''0xB'', True, ''0x02'')]" 4] run
  show ?thesis by simp
qed


subsection \<open>The address resolver\<close>

lemma decValue_snoc: "decValue (s @ [c]) = 10 * decValue s + digitValue c"
  by (simp add: decValue_def)

lemma digitValue_digit: "d < 10 \<Longrightarrow> digitValue (''0123456789'' ! d) = d"
proof -
  assume "d < 10"
  then have "d = 0 \<or> d = 1 \<or> d = 2 \<or> d = 3 \<or> d = 4 \<or> d = 5 \<or> d = 6 \<or> d = 7 \<or> d = 8 \<or> d = 9"
    by arith
  then show ?thesis by (auto simp: digitValue_def upt_rec)
qed

lemma decValue_natToString: "decValue (natToString n) = n"
proof (induction n rule: natToString.induct)
  case (1 n)
  show ?case
  proof (cases "n < 10")
    case True
    then show ?thesis
      by (subst natToString.simps) (simp add: decValue_def digitValue_digit)
  next
    case False
    with "1.IH" have "decValue (natToString (n div 10)) = n div 10" by simp
    with False show ?thesis
      by (subst natToString.simps) (simp add: decValue_snoc digitValue_digit)
  qed
qed

lemma getAddress_address:
  "isAddress input \<Longrightarrow> getAddress isAddress input provider = ([], Inr input)"
  by (simp add: getAddress_def)

lemma getAddress_unsupported:
  "\<not> isAddress input \<Longrightarrow> getNetwork provider = Inr chainId \<Longrightarrow> chainId \<noteq> 1 \<Longrightarrow>
     getAddress isAddress input provider = ([GetNetwork], Inl (Error (unsupportedChainMessage chainId)))"
  by (simp add: getAddress_def)

lemma getAddress_unresolved:
  "\<not> isAddress input \<Longrightarrow> getNetwork provider = Inr 1 \<Longrightarrow>
     resolveName provider input = Inr None \<or> resolveName provider input = Inr (Some []) \<Longrightarrow>
     getAddress isAddress input provider
       = ([GetNetwork, ResolveName input], Inl (Error ''Invalid ENS domain.''))"
  by (auto simp: getAddress_def)

lemma getAddress_resolved:
  "\<not> isAddress input \<Longrightarrow> getNetwork provider = Inr 1 \<Longrightarrow>
     resolveName provider input = Inr (Some a) \<Longrightarrow> a \<noteq> [] \<Longrightarrow>
     getAddress isAddress input provider = ([GetNetwork, ResolveName input], Inr a)"
  by (simp add: getAddress_def)

lemma getAddress_failure:
  assumes "snd (getAddress isAddress input provider) = Inl e"
  shows "e = Error ''Invalid ENS domain.''
        \<or> (\<exists>c. getNetwork provider = Inr c \<and> c \<noteq> 1 \<and> e = Error (unsupportedChainMessage c))
        \<or> getNetwork provider = Inl e
        \<or> resolveName provider input = Inl e"
proof (cases "isAddress input")
  case True
  with assms show ?thesis by (simp add: getAddress_address)
next
  case na: False
  show ?thesis
  proof (cases "getNetwork provider")
    case (Inl e')
    with na assms show ?thesis by (simp add: getAddress_def)
  next
    case (Inr c)
    show ?thesis
    proof (cases "c = 1")
      case False
      with na Inr assms show ?thesis by (simp add: getAddress_unsupported)
    next
      case True
      show ?thesis
      proof (cases "resolveName provider input")
        case (Inl e')
        with na Inr True assms show ?thesis by (simp add: getAddress_def)
      next
        case r: (Inr address)
        show ?thesis
        proof (cases "address = None \<or> address = Some []")
          case True
          with na Inr \<open>c = 1\<close> r assms getAddress_unresolved [of isAddress input provider]
          show ?thesis by auto
        next
          case False
          then obtain a where "address = Some a" "a \<noteq> []" by auto
          with na Inr \<open>c = 1\<close> r assms getAddress_resolved [of isAddress input provider a]
          show ?thesis by simp
        qed
      qed
    qed
  qed
qed

text \<open>
  Claim C5. For every input string and connection: if the input is a well-formed address,
  \<open>getAddress\<close> returns it unchanged and makes no network call; otherwise, if the
  connection's network id is not 1, it fails with the error that names the chain id (the
  unsupported-network error), having asked for the network only; if the id is 1 and the
  name does not resolve (the answer is \<^verbatim>\<open>null\<close> or empty), it fails with the invalid-name
  error; if the id is 1 and the name resolves, it returns the resolved address. Every
  failure of \<open>getAddress\<close> is one of these two errors or a failure of the connection
  itself, handed on.
\<close>

theorem getAddress_outcomes:
  "(isAddress input \<longrightarrow> getAddress isAddress input provider = ([], Inr input))
   \<and> (\<not> isAddress input \<and> getNetwork provider = Inr chainId \<and> chainId \<noteq> 1 \<longrightarrow>
        getAddress isAddress input provider
        = ([GetNetwork],
           Inl (Error (''Chain '' @ bigintToString chainId
             @ '' does not support ENS. See https://github.com/ethers-io/ethers.js/issues/310'')))
        \<and> (0 \<le> chainId \<longrightarrow> int (decValue (bigintToString chainId)) = chainId))
   \<and> (\<not> isAddress input \<and> getNetwork provider = Inr 1
        \<and> (resolveName provider input = Inr None \<or> resolveName provider input = Inr (Some [])) \<longrightarrow>
        getAddress isAddress input provider
        = ([GetNetwork, ResolveName input], Inl (Error ''Invalid ENS domain.'')))
   \<and> (\<not> isAddress input \<and> getNetwork provider = Inr 1
        \<and> resolveName provider input = Inr (Some a) \<and> a \<noteq> [] \<longrightarrow>
        getAddress isAddress input provider = ([GetNetwork, ResolveName input], Inr a))
   \<and> (snd (getAddress isAddress input provider) = Inl e \<longrightarrow>
        e = Error ''Invalid ENS domain.''
        \<or> (\<exists>c. getNetwork provider = Inr c \<and> c \<noteq> 1
              \<and> e = Error (''Chain '' @ bigintToString c
                   @ '' does not support ENS. See https://github.com/ethers-io/ethers.js/issues/310''))
        \<or> getNetwork provider = Inl e
        \<or> resolveName provider input = Inl e)"
proof (intro conjI impI)
  show "getAddress isAddress input provider = ([], Inr input)" if "isAddress input"
    using that by (rule getAddress_address)
next
  assume h: "\<not> isAddress input \<and> getNetwork provider = Inr chainId \<and> chainId \<noteq> 1"
  then show "getAddress isAddress input provider
        = ([GetNetwork],
           Inl (Error (''Chain '' @ bigintToString chainId
             @ '' does not support ENS. See https://github.com/ethers-io/ethers.js/issues/310'')))"
    using getAddress_unsupported [of isAddress input provider chainId]
    unfolding unsupportedChainMessage_def by blast
  show "int (decValue (bigintToString chainId)) = chainId" if "0 \<le> chainId"
    using that by (simp add: bigintToString_def decValue_natToString)
next
  assume "\<not> isAddress input \<and> getNetwork provider = Inr 1
        \<and> (resolveName provider input = Inr None \<or> resolveName provider input = Inr (Some []))"
  then show "getAddress isAddress input provider
        = ([GetNetwork, ResolveName input], Inl (Error ''Invalid ENS domain.''))"
    using getAddress_unresolved [of isAddress input provider] by blast
next
  assume "\<not> isAddress input \<and> getNetwork provider = Inr 1
        \<and> resolveName provider input = Inr (Some a) \<and> a \<noteq> []"
  then show "getAddress isAddress input provider = ([GetNetwork, ResolveName input], Inr a)"
    using getAddress_resolved [of isAddress input provider a] by blast
next
  assume "snd (getAddress isAddress input provider) = Inl e"
  from getAddress_failure [OF this] show "e = Error ''Invalid ENS domain.''
        \<or> (\<exists>c. getNetwork provider = Inr c \<and> c \<noteq> 1
              \<and> e = Error (''Chain '' @ bigintToString c
                   @ '' does not support ENS. See https://github.com/ethers-io/ethers.js/issues/310''))
        \<or> getNetwork provider = Inl e
        \<or> resolveName provider input = Inl e"
    unfolding unsupportedChainMessage_def .
qed

theorem getAddress_outcomes_witness:
  "getAddress (\<lambda>s. s = ''0xcA11bde05977b3631167028862bE2a173976CA11'')
       ''0xcA11bde05977b3631167028862bE2a173976CA11''
       \<lparr>getNetwork = Inr 5, resolveName = (\<lambda>n. Inr None)\<rparr>
     = ([], Inr ''0xcA11bde05977b3631167028862bE2a173976CA11'')
   \<and> getAddress (\<lambda>s. s = ''0xcA11bde05977b3631167028862bE2a173976CA11'') ''token.eth''
       \<lparr>getNetwork = Inr 5, resolveName = (\<lambda>n. Inr None)\<rparr>
     = ([GetNetwork],
        Inl (Error ''Chain 5 does not support ENS. See https://github.com/ethers-io/ethers.js/issues/310''))
   \<and> getAddress (\<lambda>s. s = ''0xcA11bde05977b3631167028862bE2a173976CA11'') ''token.eth''
       \<lparr>getNetwork = Inr 1, resolveName = (\<lambda>n. Inr None)\<rparr>
     = ([GetNetwork, ResolveName ''token.eth''], Inl (Error ''Invalid ENS domain.''))
   \<and> getAddress (\<lambda>s. s = ''0xcA11bde05977b3631167028862bE2a173976CA11'') ''token.eth''
       \<lparr>getNetwork = Inr 1,
        resolveName = (\<lambda>n. Inr (Some ''0xcA11bde05977b3631167028862bE2a173976CA11''))\<rparr>
     = ([GetNetwork, ResolveName ''token.eth''],
        Inr ''0xcA11bde05977b3631167028862bE2a173976CA11'')"
proof -
  let ?isA = "\<lambda>s. s = ''0xcA11bde05977b3631167028862bE2a173976CA11''"
  have five: "bigintToString 5 = ''5''"
    by (simp add: bigintToString_def natToString.simps)
  have na: "\<not> ?isA ''token.eth''" by simp
  have "getAddress ?isA ''0xcA11bde05977b3631167028862bE2a173976CA11''
          \<lparr>getNetwork = Inr 5, resolveName = (\<lambda>n. Inr None)\<rparr>
        = ([], Inr ''0xcA11bde05977b3631167028862bE2a173976CA11'')"
    using getAddress_outcomes
         [of ?isA "''0xcA11bde05977b3631167028862bE2a173976CA11''"
             "\<lparr>getNetwork = Inr 5, resolveName = (\<lambda>n. Inr None)\<rparr>", THEN conjunct1]
    by simp
  moreover have "getAddress ?isA ''token.eth''
          \<lparr>getNetwork = Inr 5, resolveName = (\<lambda>n. Inr None)\<rparr>
        = ([GetNetwork],
           Inl (Error ''Chain 5 does not support ENS. See https://github.com/ethers-io/ethers.js/issues/310''))"
    using na getAddress_outcomes
         [of ?isA "''token.eth''" "\<lparr>getNetwork = Inr 5, resolveName = (\<lambda>n. Inr None)\<rparr>" 5,
          THEN conjunct2, THEN conjunct1]
    by (simp add: five)
  moreover have "getAddress ?isA ''token.eth''
          \<lparr>getNetwork = Inr 1, resolveName = (\<lambda>n. Inr None)\<rparr>
        = ([GetNetwork, ResolveName ''token.eth''], Inl (Error ''Invalid ENS domain.''))"
    using na getAddress_outcomes
         [of ?isA "''token.eth''" "\<lparr>getNetwork = Inr 1, resolveName = (\<lambda>n. Inr None)\<rparr>",
          THEN conjunct2, THEN conjunct2, THEN conjunct1]
    by simp
  moreover have "getAddress ?isA ''token.eth''
          \<lparr>getNetwork = Inr 1,
           resolveName = (\<lambda>n. Inr (Some ''0xcA11bde05977b3631167028862bE2a173976CA11''))\<rparr>
        = ([GetNetwork, ResolveName ''token.eth''],
           Inr ''0xcA11bde05977b3631167028862bE2a173976CA11'')"
    using na getAddress_outcomes
         [of ?isA "''token.eth''"
             "\<lparr>getNetwork = Inr 1,
               resolveName = (\<lambda>n. Inr (Some ''0xcA11bde05977b3631167028862bE2a173976CA11''))\<rparr>"
             _ "''0xcA11bde05977b3631167028862bE2a173976CA11''",
          THEN conjunct2, THEN conjunct2, THEN conjunct2, THEN conjunct1]
    by simp
  ultimately show ?thesis by (simp only: simp_thms)
qed

subsection \<open>The metadata decoder\<close>





lemma utf8Valid_ascii: "list_all (\<lambda>c. c < 128) cs \<Longrightarrow> utf8Valid cs"
  by (induction cs) simp_all

lemma decodeBytes32String_text:
  assumes "isBytes32Text d"
  shows "decodeBytes32String d = Inr (bytes32Text d)"
proof -
  from assms obtain data where d: "getBytes d = Inr data" and len: "length data = 32"
    and z: "data ! 31 = 0" and a: "list_all (\<lambda>b. unat b < 128) data"
    by (auto simp: isBytes32Text_def split: sum.splits)
  from a have "list_all (\<lambda>c. c < 128) (map unat (take (bytes32Length data 31) data))"
    by (auto simp: list_all_iff dest: in_set_takeD)
  then have "utf8Valid (map unat (take (bytes32Length data 31) data))"
    by (rule utf8Valid_ascii)
  with d len z show ?thesis
    by (simp add: decodeBytes32String_def toUtf8String_def bytes32Text_def dataBytes_def)
qed

lemma decodeMetaStep_ok:
  assumes c: "nth_opt context index = Some c"
    and ok: "abiDecodes (fragmentTypes (methodName c)) (snd result) \<or> isBytes32Text (snd result)"
  shows "decodeMetaStep fragmentTypes stringToNumber context meta result index
       = (if abiDecodes (fragmentTypes (methodName c)) (snd result) then []
          else [problemDecoding (methodName c) (contractAddress c)],
          Inr (obj_set meta (contractAddress c)
                 (obj_set (case obj_get meta (contractAddress c) of None \<Rightarrow> [] | Some t \<Rightarrow> t)
                    (methodName c) (entryValue fragmentTypes stringToNumber c (snd result)))))"
proof (cases "abiDecode (fragmentTypes (methodName c)) (snd result)")
  case (Inr v)
  with c show ?thesis
    by (simp add: decodeMetaStep_def abiDecodes_def entryValue_def)
next
  case (Inl e)
  with ok have "isBytes32Text (snd result)" by (simp add: abiDecodes_def)
  from decodeBytes32String_text [OF this] Inl c show ?thesis
    by (simp add: decodeMetaStep_def abiDecodes_def entryValue_def Let_def)
qed

lemma decodeMetaLoop_snoc:
  "decodeMetaLoop ft s2n ctx index (rs @ [r]) meta
   = (case decodeMetaLoop ft s2n ctx index rs meta of
        (info, Inl e) \<Rightarrow> (info, Inl e)
      | (info, Inr meta') \<Rightarrow>
          (case decodeMetaStep ft s2n ctx meta' r (index + length rs) of
             (info', res) \<Rightarrow> (info @ info', res)))"
proof (induction rs arbitrary: index meta)
  case Nil
  then show ?case by (simp split: prod.splits sum.splits)
next
  case (Cons x rs)
  show ?case
  proof (cases "decodeMetaStep ft s2n ctx meta x index")
    case (Pair info res)
    show ?thesis
    proof (cases res)
      case (Inl e)
      with Pair show ?thesis by simp
    next
      case (Inr meta')
      with Pair Cons.IH [of "Suc index" meta'] show ?thesis
        by (simp split: prod.splits sum.splits)
    qed
  qed
qed

lemma tokenField_store:
  "tokenField (obj_set meta a (obj_set (case obj_get meta a of None \<Rightarrow> [] | Some t \<Rightarrow> t) k v)) a' k'
   = (if a' = a \<and> k' = k then Some v else tokenField meta a' k')"
proof -
  have "obj_get ([] :: 'a obj) k' = None" by (simp add: obj_get_def)
  then show ?thesis by (simp add: tokenField_def obj_get_set split: option.splits)
qed

lemma diagnostics_snoc:
  "length rs < length ctx \<Longrightarrow>
   diagnostics ft (rs @ [r]) ctx
   = diagnostics ft rs ctx
     @ (if abiDecodes (ft (methodName (ctx ! length rs))) (snd r) then []
        else [problemDecoding (methodName (ctx ! length rs)) (contractAddress (ctx ! length rs))])"
proof -
  assume l: "length rs < length ctx"
  then have "zip (rs @ [r]) ctx = zip rs ctx @ [(r, ctx ! length rs)]"
    by (induction rs arbitrary: ctx) (auto simp: zip_Cons1 split: list.splits)
  then show ?thesis by (simp add: diagnostics_def)
qed

lemma lastFor_Suc:
  "i < n \<Longrightarrow> lastFor ctx (Suc n) i
     \<longleftrightarrow> lastFor ctx n i \<and> \<not> (contractAddress (ctx ! n) = contractAddress (ctx ! i)
                               \<and> methodName (ctx ! n) = methodName (ctx ! i))"
  by (auto simp: lastFor_def)

lemma lastFor_self: "lastFor ctx (Suc n) n"
  by (simp add: lastFor_def)

lemma decodeMetaResults_ok:
  assumes "length rs \<le> length ctx"
    and "\<forall>i < length rs. abiDecodes (ft (methodName (ctx ! i))) (snd (rs ! i)) \<or> isBytes32Text (snd (rs ! i))"
  shows "\<exists>meta. decodeMetaResults ft s2n rs ctx = (diagnostics ft rs ctx, Inr meta)
           \<and> (\<forall>i < length rs. lastFor ctx (length rs) i \<longrightarrow>
                 tokenField meta (contractAddress (ctx ! i)) (methodName (ctx ! i))
                 = Some (entryValue ft s2n (ctx ! i) (snd (rs ! i))))
           \<and> fst ` set meta = contractAddress ` set (take (length rs) ctx)"
  using assms
proof (induction rs rule: rev_induct)
  case Nil
  then show ?case by (simp add: decodeMetaResults_def diagnostics_def)
next
  case (snoc r rs)
  let ?n = "length rs"
  from snoc.prems(1) have n: "?n < length ctx" by simp
  have "\<forall>i < ?n. abiDecodes (ft (methodName (ctx ! i))) (snd (rs ! i)) \<or> isBytes32Text (snd (rs ! i))"
  proof (intro allI impI)
    fix i assume "i < ?n"
    with snoc.prems(2) [rule_format, of i] show
      "abiDecodes (ft (methodName (ctx ! i))) (snd (rs ! i)) \<or> isBytes32Text (snd (rs ! i))"
      by (simp add: nth_append)
  qed
  with snoc.IH n obtain meta where run: "decodeMetaResults ft s2n rs ctx = (diagnostics ft rs ctx, Inr meta)"
    and vals: "\<forall>i < ?n. lastFor ctx ?n i \<longrightarrow>
                 tokenField meta (contractAddress (ctx ! i)) (methodName (ctx ! i))
                 = Some (entryValue ft s2n (ctx ! i) (snd (rs ! i)))"
    and keys: "fst ` set meta = contractAddress ` set (take ?n ctx)"
    by auto
  let ?c = "ctx ! ?n"
  from n have c: "nth_opt ctx ?n = Some ?c" by (simp add: nth_opt_def)
  from snoc.prems(2) [rule_format, of ?n]
  have ok: "abiDecodes (ft (methodName ?c)) (snd r) \<or> isBytes32Text (snd r)" by simp
  let ?meta' = "obj_set meta (contractAddress ?c)
                 (obj_set (case obj_get meta (contractAddress ?c) of None \<Rightarrow> [] | Some t \<Rightarrow> t)
                    (methodName ?c) (entryValue ft s2n ?c (snd r)))"
  have "decodeMetaStep ft s2n ctx meta r ?n
       = (if abiDecodes (ft (methodName ?c)) (snd r) then []
          else [problemDecoding (methodName ?c) (contractAddress ?c)],
          Inr ?meta')"
    using c ok by (rule decodeMetaStep_ok)
  with run
  have run': "decodeMetaResults ft s2n (rs @ [r]) ctx = (diagnostics ft (rs @ [r]) ctx, Inr ?meta')"
    by (simp add: decodeMetaResults_def decodeMetaLoop_snoc diagnostics_snoc [OF n])
  have vals': "tokenField ?meta' (contractAddress (ctx ! i)) (methodName (ctx ! i))
                 = Some (entryValue ft s2n (ctx ! i) (snd ((rs @ [r]) ! i)))"
    if i: "i < length (rs @ [r])" and l: "lastFor ctx (length (rs @ [r])) i" for i
  proof (cases "i = ?n")
    case True
    then show ?thesis by (simp add: tokenField_store)
  next
    case False
    with i have i': "i < ?n" by simp
    from l i' have "lastFor ctx ?n i"
      and "\<not> (contractAddress ?c = contractAddress (ctx ! i) \<and> methodName ?c = methodName (ctx ! i))"
      by (simp_all add: lastFor_Suc)
    with vals i' show ?thesis
      by (auto simp: tokenField_store nth_append)
  qed
  from n have "take (Suc ?n) ctx = take ?n ctx @ [?c]" by (simp add: take_Suc_conv_app_nth)
  with keys have keys': "fst ` set ?meta' = contractAddress ` set (take (length (rs @ [r])) ctx)"
    by (simp add: keys_obj_set)
  from run' vals' keys' show ?case by blast
qed


lemma beValue_foldl:
  "foldl (\<lambda>n b. 256 * n + unat b) a bs = a * 256 ^ length bs + foldl (\<lambda>n (b::byte). 256 * n + unat b) 0 bs"
proof (induction bs arbitrary: a)
  case Nil
  then show ?case by simp
next
  case (Cons b bs)
  from Cons.IH [of "256 * a + unat b"] Cons.IH [of "unat b"] show ?case
    by (simp add: algebra_simps)
qed

lemma beValue_Cons: "beValue (b # bs) = unat b * 256 ^ length bs + beValue bs"
  using beValue_foldl [of "unat b" bs] by (simp add: beValue_def)

lemma beValue_less: "beValue bs < 256 ^ length bs"
proof (induction bs)
  case Nil
  then show ?case by (simp add: beValue_def)
next
  case (Cons b bs)
  have "unat b < 2 ^ LENGTH(8)" by (rule unsigned_less)
  then have "unat b \<le> 255" by simp
  then have "unat b * 256 ^ length bs \<le> 255 * 256 ^ length bs" by (rule mult_le_mono1)
  with Cons have "unat b * 256 ^ length bs + beValue bs < 256 * 256 ^ length bs" by linarith
  then show ?case by (simp add: beValue_Cons)
qed

lemma abiDecode_string_raw_text:
  assumes d: "getBytes d = Inr data" and len: "length data = 32" and nz: "data ! 0 \<noteq> 0"
  shows "abiDecode (Some TString) d = Inl (EthersError INVALID_ARGUMENT)"
proof -
  from len obtain b bs where data: "data = b # bs" and bs: "length bs = 31"
    by (cases data) auto
  from nz data have "unat b \<noteq> 0" by (simp add: unsigned_eq_0_iff)
  then have "1 \<le> unat b" by simp
  then have "1 * 256 ^ 31 \<le> unat b * 256 ^ 31" by (rule mult_le_mono1)
  then have "(256::nat) ^ 31 \<le> beValue data"
    by (simp add: data beValue_Cons bs)
  then have "9007199254740991 < beValue data" by simp
  with d len show ?thesis
    by (simp add: abiDecode_def decodeString_def readIndex_def readValue_def)
qed

lemma bitLength_le: "n < 2 ^ k \<Longrightarrow> bitLength n \<le> k"
proof (induction k arbitrary: n)
  case 0
  then show ?case by (simp add: bitLength.simps)
next
  case (Suc k)
  show ?case
  proof (cases "n = 0")
    case True
    then show ?thesis by (simp add: bitLength.simps)
  next
    case False
    from Suc.prems have "n div 2 < 2 ^ k" by simp
    from Suc.IH [OF this] False show ?thesis
      by (subst bitLength.simps) simp
  qed
qed

lemma bigintToNumber_small:
  assumes "\<bar>i\<bar> < 2 ^ 53"
  shows "bigintToNumber i = Finite (of_int i)"
proof -
  define m where "m = nat \<bar>i\<bar>"
  from assms have "m < 2 ^ 53" by (simp add: m_def nat_less_iff)
  then have e: "bitLength m - 53 = 0" and m: "\<not> 2 ^ 1024 \<le> m"
    using bitLength_le [of m 53] by simp_all
  have r: "(if 2 ^ 0 < 2 * (m mod 2 ^ 0) \<or> (2 * (m mod 2 ^ 0) = 2 ^ 0 \<and> odd (m div 2 ^ 0))
            then (m div 2 ^ 0 + 1) * 2 ^ 0 else m div 2 ^ 0 * 2 ^ 0) = m"
    by simp
  have s: "(if i < 0 then - int m else int m) = i" by (simp add: m_def)
  show ?thesis
    unfolding bigintToNumber_def Let_def m_def [symmetric] e r s
    using m by simp
qed

text \<open>
  Claim C6. A metadata result whose return data is raw 32-byte zero-padded ASCII, not an
  ABI-encoded dynamic string, does not make \<open>decodeMetaResults\<close> throw. When every entry
  either decodes by the type its method has in the table or is such raw text (and the
  context is as long as the results), the decoder returns a map; it writes one diagnostic
  for each entry whose ABI decoding failed, in order, and goes on with the remaining
  entries; the value found for a contract and method is that of the last entry for them,
  and the keys are the contracts of the context. The fallback reads raw text as the
  32-byte string without its trailing zero bytes, raw text with a non-zero first byte
  does fail to decode as a dynamic string, and the value stored on the fallback path is
  that text (for \<open>decimals\<close>, what \<^verbatim>\<open>Number\<close> makes of it).
\<close>

theorem decodeMetaResults_bytes32_fallback:
  "(length metaResults \<le> length context
     \<and> (\<forall>i < length metaResults.
           abiDecodes (fragmentTypes (methodName (context ! i))) (snd (metaResults ! i))
           \<or> isBytes32Text (snd (metaResults ! i)))
    \<longrightarrow> (\<exists>meta.
           decodeMetaResults fragmentTypes stringToNumber metaResults context
           = (diagnostics fragmentTypes metaResults context, Inr meta)
         \<and> (\<forall>i < length metaResults.
               lastFor context (length metaResults) i \<longrightarrow>
               tokenField meta (contractAddress (context ! i)) (methodName (context ! i))
               = Some (entryValue fragmentTypes stringToNumber (context ! i) (snd (metaResults ! i))))
         \<and> set (obj_keys meta) = contractAddress ` set (take (length metaResults) context)))
   \<and> (isBytes32Text d \<longrightarrow> decodeBytes32String d = Inr (bytes32Text d))
   \<and> (isBytes32Text d \<and> dataBytes d ! 0 \<noteq> 0 \<longrightarrow> \<not> abiDecodes (Some TString) d)
   \<and> (isBytes32Text d \<and> \<not> abiDecodes (fragmentTypes (methodName c)) d \<longrightarrow>
        entryValue fragmentTypes stringToNumber c d
        = (if methodName c = ''decimals'' then JNumber (stringToNumber (bytes32Text d))
           else JString (bytes32Text d)))"
proof (intro conjI impI)
  assume h: "length metaResults \<le> length context
     \<and> (\<forall>i < length metaResults.
           abiDecodes (fragmentTypes (methodName (context ! i))) (snd (metaResults ! i))
           \<or> isBytes32Text (snd (metaResults ! i)))"
  from decodeMetaResults_ok [of metaResults "context" fragmentTypes stringToNumber] h
  show "\<exists>meta.
           decodeMetaResults fragmentTypes stringToNumber metaResults context
           = (diagnostics fragmentTypes metaResults context, Inr meta)
         \<and> (\<forall>i < length metaResults.
               lastFor context (length metaResults) i \<longrightarrow>
               tokenField meta (contractAddress (context ! i)) (methodName (context ! i))
               = Some (entryValue fragmentTypes stringToNumber (context ! i) (snd (metaResults ! i))))
         \<and> set (obj_keys meta) = contractAddress ` set (take (length metaResults) context)"
    by (simp add: set_obj_keys)
next
  assume "isBytes32Text d"
  then show "decodeBytes32String d = Inr (bytes32Text d)" by (rule decodeBytes32String_text)
next
  assume h: "isBytes32Text d \<and> dataBytes d ! 0 \<noteq> 0"
  then obtain data where d: "getBytes d = Inr data" and len: "length data = 32"
    by (auto simp: isBytes32Text_def split: sum.splits)
  with h have "data ! 0 \<noteq> 0" by (simp add: dataBytes_def)
  from abiDecode_string_raw_text [OF d len this]
  show "\<not> abiDecodes (Some TString) d" by (simp add: abiDecodes_def)
next
  assume h: "isBytes32Text d \<and> \<not> abiDecodes (fragmentTypes (methodName c)) d"
  then obtain e where "abiDecode (fragmentTypes (methodName c)) d = Inl e"
    by (cases "abiDecode (fragmentTypes (methodName c)) d") (simp_all add: abiDecodes_def)
  then show "entryValue fragmentTypes stringToNumber c d
        = (if methodName c = ''decimals'' then JNumber (stringToNumber (bytes32Text d))
           else JString (bytes32Text d))"
    by (simp add: entryValue_def Number_def)
qed

lemma byteChar_MKR:
  "byteChar 0x4d = CHR ''M''" "byteChar 0x4b = CHR ''K''" "byteChar 0x52 = CHR ''R''"
  by code_simp+

lemma getBytes_MKR:
  "getBytes ''0x4d4b520000000000000000000000000000000000000000000000000000000000''
   = Inr [0x4d, 0x4b, 0x52, 0, 0, 0, 0, 0, 0, 0, 0, 0, 0, 0, 0, 0,
          0, 0, 0, 0, 0, 0, 0, 0, 0, 0, 0, 0, 0, 0, 0, 0]"
  by (simp add: getBytes_def hexDigit_def upt_rec)

lemma isBytes32Text_MKR:
  "isBytes32Text ''0x4d4b520000000000000000000000000000000000000000000000000000000000''"
  by (simp add: isBytes32Text_def getBytes_MKR)

lemma bytes32Text_MKR:
  "bytes32Text ''0x4d4b520000000000000000000000000000000000000000000000000000000000'' = ''MKR''"
  by (simp add: bytes32Text_def dataBytes_def getBytes_MKR bytes32Length.simps byteChar_MKR)

lemma abiDecode_MKR:
  "abiDecode (Some TString) ''0x4d4b520000000000000000000000000000000000000000000000000000000000''
   = Inl (EthersError INVALID_ARGUMENT)"
  by (rule abiDecode_string_raw_text [OF getBytes_MKR]) simp_all

lemma abiDecode_18:
  "abiDecode (Some (TUint 8)) ''0x0000000000000000000000000000000000000000000000000000000000000012''
   = Inr (JBigInt 18)"
  by (simp add: abiDecode_def getBytes_def hexDigit_def upt_rec readValue_def beValue_def)

lemma decodeMetaResults_MKR:
  "decodeMetaResults erc20FragmentTypes (\<lambda>s. NaN)
     [(True, ''0x4d4b520000000000000000000000000000000000000000000000000000000000''),
      (True, ''0x0000000000000000000000000000000000000000000000000000000000000012'')]
     [\<lparr>contractAddress = ''0xA'', methodName = ''symbol''\<rparr>,
      \<lparr>contractAddress = ''0xA'', methodName = ''decimals''\<rparr>]
   = ([''Problem decoding symbol for 0xA. The contract is likely not ERC-20 compliant.''],
      Inr [(''0xA'', [(''symbol'', JString ''MKR''), (''decimals'', JNumber (Finite 18))])])"
proof -
  have t: "decodeBytes32String ''0x4d4b520000000000000000000000000000000000000000000000000000000000''
      = Inr ''MKR''"
    using decodeBytes32String_text [OF isBytes32Text_MKR] by (simp add: bytes32Text_MKR)
  have n: "bigintToNumber 18 = Finite 18"
    using bigintToNumber_small [of 18] by simp
  show ?thesis
    by (simp add: decodeMetaResults_def decodeMetaStep_def nth_opt_def erc20FragmentTypes_def
        abiDecode_MKR abiDecode_18 t n problemDecoding_def Number_def obj_get_def)
qed

theorem decodeMetaResults_bytes32_fallback_witness:
  "length [(True, ''0x4d4b520000000000000000000000000000000000000000000000000000000000''),
           (True, ''0x0000000000000000000000000000000000000000000000000000000000000012'')]
     \<le> length [\<lparr>contractAddress = ''0xA'', methodName = ''symbol''\<rparr>,
                \<lparr>contractAddress = ''0xA'', methodName = ''decimals''\<rparr>]
   \<and> isBytes32Text ''0x4d4b520000000000000000000000000000000000000000000000000000000000''
   \<and> dataBytes ''0x4d4b520000000000000000000000000000000000000000000000000000000000'' ! 0 \<noteq> 0
   \<and> \<not> abiDecodes (erc20FragmentTypes ''symbol'')
          ''0x4d4b520000000000000000000000000000000000000000000000000000000000''
   \<and> abiDecodes (erc20FragmentTypes ''decimals'')
        ''0x0000000000000000000000000000000000000000000000000000000000000012''
   \<and> decodeBytes32String ''0x4d4b520000000000000000000000000000000000000000000000000000000000''
      = Inr ''MKR''
   \<and> decodeMetaResults erc20FragmentTypes (\<lambda>s. NaN)
        [(True, ''0x4d4b520000000000000000000000000000000000000000000000000000000000''),
         (True, ''0x0000000000000000000000000000000000000000000000000000000000000012'')]
        [\<lparr>contractAddress = ''0xA'', methodName = ''symbol''\<rparr>,
         \<lparr>contractAddress = ''0xA'', methodName = ''decimals''\<rparr>]
      = ([''Problem decoding symbol for 0xA. The contract is likely not ERC-20 compliant.''],
         Inr [(''0xA'', [(''symbol'', JString ''MKR''), (''decimals'', JNumber (Finite 18))])])"
proof -
  let ?mkr = "''0x4d4b520000000000000000000000000000000000000000000000000000000000''"
  let ?d18 = "''0x0000000000000000000000000000000000000000000000000000000000000012''"
  let ?rs = "[(True, ?mkr), (True, ?d18)]"
  let ?ctx = "[\<lparr>contractAddress = ''0xA'', methodName = ''symbol''\<rparr>,
               \<lparr>contractAddress = ''0xA'', methodName = ''decimals''\<rparr>]"
  have a1: "\<not> abiDecodes (erc20FragmentTypes ''symbol'') ?mkr"
    by (simp add: abiDecodes_def erc20FragmentTypes_def abiDecode_MKR)
  have a2: "abiDecodes (erc20FragmentTypes ''decimals'') ?d18"
    by (simp add: abiDecodes_def erc20FragmentTypes_def abiDecode_18)
  have nz: "dataBytes ?mkr ! 0 \<noteq> 0"
    by (simp add: dataBytes_def getBytes_MKR)
  have hyp: "length ?rs \<le> length ?ctx
     \<and> (\<forall>i < length ?rs.
           abiDecodes (erc20FragmentTypes (methodName (?ctx ! i))) (snd (?rs ! i))
           \<or> isBytes32Text (snd (?rs ! i)))"
    using a2 isBytes32Text_MKR by (simp add: less_Suc_eq All_less_Suc)
  from decodeMetaResults_bytes32_fallback
         [of ?rs ?ctx erc20FragmentTypes "\<lambda>s. NaN" ?mkr] hyp isBytes32Text_MKR
  have "decodeBytes32String ?mkr = Inr (bytes32Text ?mkr)" by blast
  with a1 a2 nz isBytes32Text_MKR decodeMetaResults_MKR show ?thesis
    by (simp add: bytes32Text_MKR)
qed











subsection \<open>The balance normalizer: keys\<close>

lemma abiDecode_uint256:
  "abiDecode (Some (TUint 256)) d
   = (case getBytes d of
        Inl e \<Rightarrow> Inl e
      | Inr bytes \<Rightarrow>
          if length bytes < 32 then Inl (EthersError BUFFER_OVERRUN)
          else Inr (JBigInt (int (beValue (take 32 bytes) mod 2 ^ 256))))"
  by (simp add: abiDecode_def readValue_def split: sum.splits)

lemma balancesStep_entry:
  "balancesStep meta raw fmt acc k
   = (case balanceEntry meta raw fmt k of Inl e \<Rightarrow> Inl e | Inr t \<Rightarrow> Inr (obj_set acc k t))"
  by (simp add: balancesStep_def balanceEntry_def balanceString_def Let_def
      split: option.splits sum.splits js_value.splits)

lemma balancesStep_keys:
  assumes "balancesStep meta raw fmt acc k = Inr acc'"
  shows "fst ` set acc' = insert k (fst ` set acc)"
proof -
  from assms obtain t where "acc' = obj_set acc k t"
    by (cases "balanceEntry meta raw fmt k") (auto simp: balancesStep_entry)
  then show ?thesis by (simp only: keys_obj_set)
qed

lemma balancesLoop_keys:
  "balancesLoop meta raw fmt ks acc = Inr out \<Longrightarrow> fst ` set out = fst ` set acc \<union> set ks"
proof (induction ks arbitrary: acc)
  case Nil
  then show ?case by simp
next
  case (Cons k ks)
  from Cons.prems obtain acc' where step: "balancesStep meta raw fmt acc k = Inr acc'"
    and rest: "balancesLoop meta raw fmt ks acc' = Inr out"
    by (auto split: sum.splits)
  from Cons.IH [OF rest] balancesStep_keys [OF step] show ?case by auto
qed

lemma balanceString_Inr:
  "(\<exists>s. balanceString fmt v decimals = Inr s)
   \<longleftrightarrow> (fmt \<longrightarrow> (case unitDecimals decimals of Inr n \<Rightarrow> n \<le> 80 | Inl _ \<Rightarrow> False))"
  by (cases "unitDecimals decimals") (simp_all add: balanceString_def formatUnits_def)

lemma balanceEntry_normalizable:
  "(\<exists>t. balanceEntry meta raw fmt k = Inr t) \<longleftrightarrow> normalizable meta raw fmt k"
proof (cases "obj_get meta k")
  case None
  then show ?thesis by (simp add: balanceEntry_def normalizable_def)
next
  case info: (Some info)
  show ?thesis
  proof (cases "obj_get raw k")
    case None
    with info show ?thesis by (simp add: balanceEntry_def normalizable_def)
  next
    case d: (Some d)
    show ?thesis
    proof (cases "getBytes d")
      case (Inl e)
      with info d show ?thesis
        by (simp add: balanceEntry_def normalizable_def abiDecode_uint256)
    next
      case (Inr bytes)
      show ?thesis
      proof (cases "length bytes < 32")
        case True
        with info d Inr show ?thesis
          by (simp add: balanceEntry_def normalizable_def abiDecode_uint256)
      next
        case False
        have "(\<exists>t. (case balanceString fmt v (obj_get info ''decimals'') of
                      Inl e \<Rightarrow> Inl e
                    | Inr balance \<Rightarrow> Inr (obj_set info ''balanceOf'' (JString balance))) = Inr t)
              \<longleftrightarrow> (\<exists>s. balanceString fmt v (obj_get info ''decimals'') = Inr s)" for v
          by (cases "balanceString fmt v (obj_get info ''decimals'')") simp_all
        with False info d Inr show ?thesis
          by (simp add: balanceEntry_def normalizable_def abiDecode_uint256 balanceString_Inr)
      qed
    qed
  qed
qed

lemma balancesStep_normalizable:
  "(\<exists>acc'. balancesStep meta raw fmt acc k = Inr acc') \<longleftrightarrow> normalizable meta raw fmt k"
  unfolding balanceEntry_normalizable [symmetric] balancesStep_entry
  by (cases "balanceEntry meta raw fmt k") simp_all

lemma balancesLoop_normalizable:
  "(\<exists>out. balancesLoop meta raw fmt ks acc = Inr out) \<longleftrightarrow> list_all (normalizable meta raw fmt) ks"
proof (induction ks arbitrary: acc)
  case Nil
  then show ?case by simp
next
  case (Cons k ks)
  show ?case
  proof (cases "balancesStep meta raw fmt acc k")
    case (Inl e)
    with balancesStep_normalizable [of meta raw fmt acc k] show ?thesis by simp
  next
    case (Inr acc')
    with balancesStep_normalizable [of meta raw fmt acc k] Cons.IH [of acc'] show ?thesis by auto
  qed
qed

lemma balancesStep_other_keys:
  assumes "obj_get raw k = obj_get raw' k"
  shows "balancesStep meta raw fmt acc k = balancesStep meta raw' fmt acc k"
proof -
  have "balanceEntry meta raw fmt k = balanceEntry meta raw' fmt k"
    by (simp only: balanceEntry_def assms)
  then show ?thesis by (simp only: balancesStep_entry)
qed

lemma balancesLoop_other_keys:
  assumes "\<forall>k \<in> set ks. obj_get raw k = obj_get raw' k"
  shows "balancesLoop meta raw fmt ks acc = balancesLoop meta raw' fmt ks acc"
  using assms
proof (induction ks arbitrary: acc)
  case Nil
  then show ?case by simp
next
  case (Cons k ks)
  from Cons.prems have k: "obj_get raw k = obj_get raw' k"
    and ks: "\<forall>k \<in> set ks. obj_get raw k = obj_get raw' k" by simp_all
  have step: "balancesStep meta raw fmt acc k = balancesStep meta raw' fmt acc k"
    using k by (rule balancesStep_other_keys)
  show ?case
  proof (cases "balancesStep meta raw' fmt acc k")
    case (Inl e)
    with step show ?thesis by simp
  next
    case (Inr acc')
    with step Cons.IH [OF ks, of acc'] show ?thesis by simp
  qed
qed

lemma obj_get_filter:
  "P k \<Longrightarrow> obj_get (filter (\<lambda>p. P (fst p)) ob) k = obj_get ob k"
  by (induction ob) (auto simp: obj_get_def)


subsection \<open>The balance normalizer: decimal strings\<close>

lemma digit_cases:
  assumes "k < 10"
  shows "k = 0 \<or> k = 1 \<or> k = 2 \<or> k = 3 \<or> k = 4 \<or> k = 5 \<or> k = 6 \<or> k = 7 \<or> k = 8 \<or> k = (9::nat)"
  using assms by arith

lemma digit_zero: "k < 10 \<Longrightarrow> ''0123456789'' ! k = CHR ''0'' \<longleftrightarrow> k = 0"
  using digit_cases [of k] by auto

lemma digit_not_point: "k < 10 \<Longrightarrow> ''0123456789'' ! k \<noteq> CHR ''.''"
  using digit_cases [of k] by auto

lemma natToString_small: "n < 10 \<Longrightarrow> natToString n = [''0123456789'' ! n]"
  by (subst natToString.simps) simp

lemma natToString_large:
  "10 \<le> n \<Longrightarrow> natToString n = natToString (n div 10) @ [''0123456789'' ! (n mod 10)]"
  by (subst natToString.simps) simp

lemma natToString_nonempty: "natToString n \<noteq> []"
  by (cases "n < 10") (simp_all add: natToString_small natToString_large)

lemma natToString_no_point: "CHR ''.'' \<notin> set (natToString n)"
proof (induction n rule: natToString.induct)
  case (1 n)
  show ?case
  proof (cases "n < 10")
    case True
    then show ?thesis using digit_not_point [of n] by (simp add: natToString_small)
  next
    case False
    with "1.IH" digit_not_point [of "n mod 10"] show ?thesis
      by (simp add: natToString_large)
  qed
qed

lemma natToString_hd: "0 < n \<Longrightarrow> hd (natToString n) \<noteq> CHR ''0''"
proof (induction n rule: natToString.induct)
  case (1 n)
  show ?case
  proof (cases "n < 10")
    case True
    with "1.prems" show ?thesis using digit_zero [of n] by (simp add: natToString_small)
  next
    case False
    then have "0 < n div 10" by simp
    with "1.IH" False have "hd (natToString (n div 10)) \<noteq> CHR ''0''" by simp
    with False show ?thesis
      by (simp add: natToString_large natToString_nonempty)
  qed
qed

lemma length_fracDigits: "length (fracDigits d v) = d"
  by (induction d arbitrary: v) simp_all

lemma fracDigits_no_point: "CHR ''.'' \<notin> set (fracDigits d v)"
proof (induction d arbitrary: v)
  case 0
  then show ?case by simp
next
  case (Suc d)
  then show ?case using digit_not_point [of "v mod 10"] by simp
qed

lemma fracDigits_zero: "fracDigits d 0 = replicate d CHR ''0''"
  by (induction d) (simp_all add: replicate_append_same)

lemma natToString_split:
  "10 ^ d \<le> n \<Longrightarrow> natToString n = natToString (n div 10 ^ d) @ fracDigits d n"
proof (induction d arbitrary: n)
  case 0
  then show ?case by simp
next
  case (Suc d)
  then have big: "10 \<le> n"
    by (metis dual_order.trans le_add1 one_le_numeral one_le_power plus_1_eq_Suc power_Suc mult.right_neutral mult_le_mono2)
  from Suc.prems have "10 ^ d \<le> n div 10"
    by (simp add: less_eq_div_iff_mult_less_eq mult.commute)
  from Suc.IH [OF this] have "natToString (n div 10)
      = natToString (n div 10 div 10 ^ d) @ fracDigits d (n div 10)" .
  moreover have "n div 10 div 10 ^ d = n div 10 ^ Suc d"
    by (simp add: div_mult2_eq)
  ultimately show ?case using big by (simp add: natToString_large)
qed

lemma natToString_length_le:
  "0 < d \<Longrightarrow> n < 10 ^ d \<Longrightarrow> length (natToString n) \<le> d"
proof (induction d arbitrary: n)
  case 0
  then show ?case by simp
next
  case (Suc d)
  show ?case
  proof (cases "n < 10")
    case True
    then show ?thesis by (simp add: natToString_small)
  next
    case False
    then have d: "0 < d" using Suc.prems(2) by (cases d) auto
    from Suc.prems(2) have "n div 10 < 10 ^ d"
      by (simp add: div_less_iff_less_mult mult.commute)
    from Suc.IH [OF d this] False show ?thesis by (simp add: natToString_large)
  qed
qed

lemma natToString_length_gt:
  "10 ^ d \<le> n \<Longrightarrow> d < length (natToString n)"
  using natToString_split [of d n] natToString_nonempty [of "n div 10 ^ d"]
  by (simp add: length_fracDigits)

lemma natToString_pad:
  "0 < d \<Longrightarrow> n < 10 ^ d \<Longrightarrow>
     replicate (d - length (natToString n)) CHR ''0'' @ natToString n = fracDigits d n"
proof (induction d arbitrary: n)
  case 0
  then show ?case by simp
next
  case (Suc d)
  show ?case
  proof (cases "n < 10")
    case True
    then show ?thesis by (simp add: natToString_small fracDigits_zero)
  next
    case False
    then have d: "0 < d" using Suc.prems(2) by (cases d) auto
    from Suc.prems(2) have small: "n div 10 < 10 ^ d"
      by (simp add: div_less_iff_less_mult mult.commute)
    from Suc.IH [OF d small] natToString_length_le [OF d small] False show ?thesis
      by (simp add: natToString_large Suc_diff_le)
  qed
qed

lemma trimWhole_zeros:
  "trimWhole (replicate (Suc m) CHR ''0'' @ CHR ''.'' # rest) = CHR ''0'' # CHR ''.'' # rest"
  by (induction m) simp_all

lemma trimWhole_keep:
  "w \<noteq> [] \<Longrightarrow> hd w \<noteq> CHR ''0'' \<Longrightarrow> trimWhole (w @ CHR ''.'' # rest) = w @ CHR ''.'' # rest"
proof -
  assume "w \<noteq> []" "hd w \<noteq> CHR ''0''"
  then obtain c w' where w: "w = c # w'" and c: "c \<noteq> CHR ''0''" by (cases w) auto
  obtain c1 cs where "w' @ CHR ''.'' # rest = c1 # cs" by (cases "w' @ CHR ''.'' # rest") auto
  with w c show ?thesis by simp
qed

lemma trimWhole_digits:
  "g \<noteq> [] \<Longrightarrow> CHR ''.'' \<notin> set g \<Longrightarrow>
     trimWhole (g @ CHR ''.'' # r)
     = (if dropWhile (\<lambda>c. c = CHR ''0'') g = [] then ''0'' else dropWhile (\<lambda>c. c = CHR ''0'') g)
       @ CHR ''.'' # r"
proof (induction g)
  case Nil
  then show ?case by simp
next
  case (Cons c g)
  show ?case
  proof (cases g)
    case Nil
    then show ?thesis by simp
  next
    case (Cons c' g')
    with Cons.prems have "c' \<noteq> CHR ''.''" "CHR ''.'' \<notin> set g" by auto
    with Cons.IH Cons show ?thesis by simp
  qed
qed

lemma trimDecimal_fraction:
  assumes "f \<noteq> []" "CHR ''.'' \<notin> set f"
  shows "trimDecimal (w @ CHR ''.'' # f) = w @ CHR ''.'' # stripZeros f"
proof -
  from assms have "rev f \<noteq> []" "CHR ''.'' \<notin> set (rev f)" by simp_all
  from trimWhole_digits [OF this, of "rev w"] show ?thesis
    by (simp add: trimDecimal_def stripZeros_def Let_def)
qed

lemma padWhole_short: "int (length str) \<le> decimals \<Longrightarrow> decimals \<le> 80 \<Longrightarrow> padWhole str decimals = Zeros @ str"
  by (subst padWhole.simps, subst padWhole.simps) (simp add: Zeros_def)

lemma padWhole_long: "decimals < int (length str) \<Longrightarrow> padWhole str decimals = str"
  by (subst padWhole.simps) simp

lemma fixedToString_fraction:
  assumes d: "0 < d" "d \<le> 80"
  shows "fixedToString (int v) (int d)
       = natToString (v div 10 ^ d) @ CHR ''.'' # stripZeros (fracDigits d v)"
proof -
  have f: "fracDigits d v \<noteq> []" using d(1) length_fracDigits [of d v] by auto
  have *: "trimDecimal (trimWhole (take (nat (int (length (padWhole (natToString v) (int d))) - int d))
                (padWhole (natToString v) (int d))
              @ CHR ''.'' # drop (nat (int (length (padWhole (natToString v) (int d))) - int d))
                (padWhole (natToString v) (int d))))
        = natToString (v div 10 ^ d) @ CHR ''.'' # stripZeros (fracDigits d v)"
  proof (cases "v < 10 ^ d")
    case True
    let ?L = "length (natToString v)"
    from natToString_length_le [OF d(1) True] have L: "?L \<le> d" .
    with d have pad: "padWhole (natToString v) (int d) = Zeros @ natToString v"
      by (simp add: padWhole_short)
    have idx: "nat (int (length (Zeros @ natToString v)) - int d) = 128 + ?L - d"
      by (simp add: Zeros_def)
    from L d have le: "128 + ?L - d \<le> 128" and pos: "128 + ?L - d = Suc (127 + ?L - d)" by simp_all
    have tk: "take (128 + ?L - d) (Zeros @ natToString v) = replicate (128 + ?L - d) CHR ''0''"
      using le by (simp add: Zeros_def)
    have "drop (128 + ?L - d) (Zeros @ natToString v)
        = replicate (d - ?L) CHR ''0'' @ natToString v"
      using le L d by (simp add: Zeros_def)
    with natToString_pad [OF d(1) True]
    have dr: "drop (128 + ?L - d) (Zeros @ natToString v) = fracDigits d v" by simp
    from True have "v div 10 ^ d = 0" by simp
    then have w: "natToString (v div 10 ^ d) = ''0''" by (simp add: natToString_small)
    have "trimWhole (replicate (128 + ?L - d) CHR ''0'' @ CHR ''.'' # fracDigits d v)
        = CHR ''0'' # CHR ''.'' # fracDigits d v"
      by (subst pos) (rule trimWhole_zeros)
    then show ?thesis
      unfolding pad idx tk dr w
      using trimDecimal_fraction [OF f fracDigits_no_point, of "''0''"]
      by simp
  next
    case False
    then have big: "10 ^ d \<le> v" by simp
    from natToString_length_gt [OF big] have pad: "padWhole (natToString v) (int d) = natToString v"
      by (simp add: padWhole_long)
    let ?w = "natToString (v div 10 ^ d)"
    from natToString_split [OF big] have split: "natToString v = ?w @ fracDigits d v" .
    have idx: "nat (int (length (natToString v)) - int d) = length ?w"
      by (simp add: split length_fracDigits)
    from big have "0 < v div 10 ^ d" by (simp add: div_greater_zero_iff)
    then have hd: "hd ?w \<noteq> CHR ''0''" by (rule natToString_hd)
    have "trimWhole (?w @ CHR ''.'' # fracDigits d v) = ?w @ CHR ''.'' # fracDigits d v"
      using natToString_nonempty hd by (rule trimWhole_keep)
    have tk: "take (length ?w) (?w @ fracDigits d v) = ?w"
      and dr: "drop (length ?w) (?w @ fracDigits d v) = fracDigits d v" by simp_all
    have idx': "nat (int (length (?w @ fracDigits d v)) - int d) = length ?w"
      by (simp add: length_fracDigits)
    have pad': "padWhole (natToString v) (int d) = ?w @ fracDigits d v"
      using pad split by simp
    from \<open>trimWhole (?w @ CHR ''.'' # fracDigits d v) = ?w @ CHR ''.'' # fracDigits d v\<close>
    show ?thesis
      unfolding pad' idx' tk dr
      using trimDecimal_fraction [OF f fracDigits_no_point, of ?w]
      by simp
  qed
  from d(1) * show ?thesis
    by (simp add: fixedToString_def Let_def)
qed

lemma fixedToString_zero_decimals: "fixedToString (int v) 0 = natToString v"
  by (simp add: fixedToString_def)

lemma beValue_word: "32 \<le> length bytes \<Longrightarrow> beValue (take 32 bytes) mod 2 ^ 256 = beValue (take 32 bytes)"
proof -
  assume "32 \<le> length bytes"
  then have "length (take 32 bytes) = 32" by simp
  with beValue_less [of "take 32 bytes"] have "beValue (take 32 bytes) < 256 ^ 32" by simp
  then show ?thesis by simp
qed

lemma balancesLoop_untouched:
  "balancesLoop meta raw fmt ks acc = Inr out \<Longrightarrow> k \<notin> set ks \<Longrightarrow> obj_get out k = obj_get acc k"
proof (induction ks arbitrary: acc)
  case Nil
  then show ?case by simp
next
  case (Cons k' ks)
  from Cons.prems(1) obtain acc' where step: "balancesStep meta raw fmt acc k' = Inr acc'"
    and rest: "balancesLoop meta raw fmt ks acc' = Inr out"
    by (auto split: sum.splits)
  from step obtain t where "acc' = obj_set acc k' t"
    by (cases "balanceEntry meta raw fmt k'") (auto simp: balancesStep_entry)
  with Cons.prems(2) have "obj_get acc' k = obj_get acc k" by (simp add: obj_get_set)
  with Cons.IH [OF rest] Cons.prems(2) show ?case by simp
qed

lemma balancesLoop_entry:
  "balancesLoop meta raw fmt ks acc = Inr out \<Longrightarrow> k \<in> set ks \<Longrightarrow>
     \<exists>t. balanceEntry meta raw fmt k = Inr t \<and> obj_get out k = Some t"
proof (induction ks arbitrary: acc)
  case Nil
  then show ?case by simp
next
  case (Cons k' ks)
  from Cons.prems(1) obtain acc' where step: "balancesStep meta raw fmt acc k' = Inr acc'"
    and rest: "balancesLoop meta raw fmt ks acc' = Inr out"
    by (auto split: sum.splits)
  show ?case
  proof (cases "k \<in> set ks")
    case True
    from Cons.IH [OF rest True] show ?thesis .
  next
    case False
    with Cons.prems(2) have k: "k = k'" by simp
    from step obtain t where t: "balanceEntry meta raw fmt k' = Inr t" and acc': "acc' = obj_set acc k' t"
      by (cases "balanceEntry meta raw fmt k'") (auto simp: balancesStep_entry)
    from balancesLoop_untouched [OF rest False] acc' k have "obj_get out k = Some t"
      by (simp add: obj_get_set)
    with t k show ?thesis by simp
  qed
qed

lemma balancesByContract_entry:
  assumes "balancesByContract meta raw fmt = Inr out" and "obj_get meta a = Some info"
  shows "\<exists>t. balanceEntry meta raw fmt a = Inr t \<and> obj_get out a = Some t"
proof -
  from assms(2) have "a \<in> set (obj_keys meta)"
    using obj_get_None [of meta a] by auto
  with assms(1) show ?thesis
    unfolding balancesByContract_def by (rule balancesLoop_entry)
qed

lemma wrapSigned512_uint: "v < 2 ^ 256 \<Longrightarrow> wrapSigned512 (int v) = int v"
proof -
  assume "v < 2 ^ 256"
  then have "int v < 2 ^ 256" by (metis of_nat_less_iff of_nat_numeral of_nat_power)
  then have lt: "int v < 2 ^ 511" and lt': "int v < 2 ^ 512" by simp_all
  then have "int v mod 2 ^ 512 = int v" by simp
  with lt show ?thesis by (simp add: wrapSigned512_def Let_def)
qed

lemma formatUnits_decimals:
  assumes "v < 2 ^ 256" "d \<le> 80"
  shows "formatUnits (int v) (Some (JNumber (Finite (of_nat d)))) = Inr (fixedToString (int v) (int d))"
proof -
  have "getNumber (JNumber (Finite (of_nat d))) = Inr (int d)"
    using assms(2) by (simp add: getNumber_def maxSafeInteger_def)
  with assms show ?thesis
    by (simp add: formatUnits_def unitDecimals_def wrapSigned512_uint)
qed

lemma decValue_fracDigits: "decValue (fracDigits d v) = v mod 10 ^ d"
proof (induction d arbitrary: v)
  case 0
  then show ?case by (simp add: decValue_def)
next
  case (Suc d)
  have "v mod 10 < 10" by simp
  then have "digitValue (''0123456789'' ! (v mod 10)) = v mod 10" by (rule digitValue_digit)
  with Suc [of "v div 10"] show ?case
    by (simp add: decValue_snoc mod_mult2_eq)
qed

lemma takeWhile_zeros:
  "takeWhile (\<lambda>c. c = z) g = replicate (length (takeWhile (\<lambda>c. c = z) g)) z"
  by (induction g) simp_all

lemma stripZeros_pad:
  assumes f: "f \<noteq> []"
  shows "stripZeros f @ replicate (length f - length (stripZeros f)) CHR ''0'' = f"
proof -
  define n where "n = length (takeWhile (\<lambda>c. c = CHR ''0'') (rev f))"
  define g where "g = dropWhile (\<lambda>c. c = CHR ''0'') (rev f)"
  have "rev f = takeWhile (\<lambda>c. c = CHR ''0'') (rev f) @ g"
    by (simp add: g_def)
  also have "takeWhile (\<lambda>c. c = CHR ''0'') (rev f) = replicate n CHR ''0''"
    unfolding n_def by (rule takeWhile_zeros)
  finally have "rev (rev f) = rev (replicate n CHR ''0'' @ g)" by (rule arg_cong)
  then have f': "f = rev g @ replicate n CHR ''0''" by simp
  show ?thesis
  proof (cases "g = []")
    case True
    with f' have all: "f = replicate n CHR ''0''" by simp
    with f obtain k where k: "n = Suc k" by (cases n) auto
    have "stripZeros f = (if rev g = [] then ''0'' else rev g)"
      unfolding stripZeros_def Let_def g_def ..
    with True have "stripZeros f = ''0''" by simp
    with all k show ?thesis by simp
  next
    case False
    have "stripZeros f = (if rev g = [] then ''0'' else rev g)"
      unfolding stripZeros_def Let_def g_def ..
    with False have "stripZeros f = rev g" by simp
    then show ?thesis by (simp add: f')
  qed
qed

subsection \<open>The balance normalizer: results\<close>

lemma natToString_1000000: "natToString 1000000 = ''1000000''"
  by (simp add: natToString.simps)

lemma abiDecode_1000000:
  "abiDecode (Some (TUint 256)) ''0x00000000000000000000000000000000000000000000000000000000000f4240''
   = Inr (JBigInt 1000000)"
  by (simp add: abiDecode_def getBytes_def hexDigit_def upt_rec readValue_def beValue_def)

lemma obj_keys_single: "obj_keys [(k, v)] = [k]"
  by (simp add: obj_keys_def)

lemma balancesByContract_raw_example:
  "balancesByContract
     [(''0xA'', [(''symbol'', JString ''USDC''), (''decimals'', JNumber (Finite 6))])]
     [(''0xA'', ''0x00000000000000000000000000000000000000000000000000000000000f4240''),
      (''0xB'', ''0x00000000000000000000000000000000000000000000000000000000000001f4'')]
     False
   = Inr [(''0xA'', [(''symbol'', JString ''USDC''), (''decimals'', JNumber (Finite 6)),
                     (''balanceOf'', JString ''1000000'')])]"
  by (simp add: balancesByContract_def obj_keys_single balancesStep_def obj_get_def
      abiDecode_1000000 bigintToString_def natToString_1000000)

text \<open>
  Claim C7. For every metadata map and every raw-balance map: whenever the normalizer
  returns a result, the keys of the result are exactly the keys of the metadata map, so
  every metadata key is in the output and a key that only the raw-balance map has is
  absent from it. Such keys are ignored silently: the normalizer behaves the same with
  them removed. A result is returned exactly when every metadata key has a raw balance
  of at least 32 bytes (so the raw-balance keys include the metadata keys) and, when
  balances are formatted, decimals that \<^verbatim>\<open>formatUnits\<close> accepts.
\<close>

theorem balancesByContract_keys:
  "(balancesByContract meta raw fmt = Inr out \<longrightarrow>
      set (obj_keys out) = set (obj_keys meta)
      \<and> (\<forall>k. k \<notin> set (obj_keys meta) \<longrightarrow> obj_get out k = None))
   \<and> ((\<exists>out. balancesByContract meta raw fmt = Inr out)
        \<longleftrightarrow> list_all (normalizable meta raw fmt) (obj_keys meta))
   \<and> balancesByContract meta raw fmt
      = balancesByContract meta (filter (\<lambda>p. fst p \<in> set (obj_keys meta)) raw) fmt"
proof (intro conjI impI)
  assume ok: "balancesByContract meta raw fmt = Inr out"
  then have "fst ` set out = set (obj_keys meta)"
    using balancesLoop_keys [of meta raw fmt "obj_keys meta" "[]" out]
    by (simp add: balancesByContract_def)
  then show "set (obj_keys out) = set (obj_keys meta)" by (simp add: set_obj_keys)
  then show "\<forall>k. k \<notin> set (obj_keys meta) \<longrightarrow> obj_get out k = None"
    by (simp add: obj_get_None)
next
  show "(\<exists>out. balancesByContract meta raw fmt = Inr out)
        \<longleftrightarrow> list_all (normalizable meta raw fmt) (obj_keys meta)"
    by (simp add: balancesByContract_def balancesLoop_normalizable)
next
  show "balancesByContract meta raw fmt
      = balancesByContract meta (filter (\<lambda>p. fst p \<in> set (obj_keys meta)) raw) fmt"
    unfolding balancesByContract_def
    by (rule balancesLoop_other_keys) (simp add: obj_get_filter [where P = "\<lambda>k. k \<in> set (obj_keys meta)"])
qed

theorem balancesByContract_keys_witness:
  "balancesByContract
     [(''0xA'', [(''symbol'', JString ''USDC''), (''decimals'', JNumber (Finite 6))])]
     [(''0xA'', ''0x00000000000000000000000000000000000000000000000000000000000f4240''),
      (''0xB'', ''0x00000000000000000000000000000000000000000000000000000000000001f4'')]
     False
   = Inr [(''0xA'', [(''symbol'', JString ''USDC''), (''decimals'', JNumber (Finite 6)),
                     (''balanceOf'', JString ''1000000'')])]
   \<and> obj_keys [(''0xA'', [(''symbol'', JString ''USDC''), (''decimals'', JNumber (Finite 6)),
                            (''balanceOf'', JString ''1000000'')])]
      = obj_keys [(''0xA'', [(''symbol'', JString ''USDC''), (''decimals'', JNumber (Finite 6))])]
   \<and> ''0xB'' \<notin> set (obj_keys
        [(''0xA'', [(''symbol'', JString ''USDC''), (''decimals'', JNumber (Finite 6))])])
   \<and> obj_get [(''0xA'', [(''symbol'', JString ''USDC''), (''decimals'', JNumber (Finite 6)),
                            (''balanceOf'', JString ''1000000'')])] ''0xB'' = None
   \<and> list_all (normalizable
        [(''0xA'', [(''symbol'', JString ''USDC''), (''decimals'', JNumber (Finite 6))])]
        [(''0xA'', ''0x00000000000000000000000000000000000000000000000000000000000f4240''),
         (''0xB'', ''0x00000000000000000000000000000000000000000000000000000000000001f4'')]
        False)
        (obj_keys [(''0xA'', [(''symbol'', JString ''USDC''), (''decimals'', JNumber (Finite 6))])])"
proof -
  let ?meta = "[(''0xA'', [(''symbol'', JString ''USDC''), (''decimals'', JNumber (Finite 6))])]"
  let ?raw = "[(''0xA'', ''0x00000000000000000000000000000000000000000000000000000000000f4240''),
      (''0xB'', ''0x00000000000000000000000000000000000000000000000000000000000001f4'')]"
  let ?out = "[(''0xA'', [(''symbol'', JString ''USDC''), (''decimals'', JNumber (Finite 6)),
                     (''balanceOf'', JString ''1000000'')])]"
  have run: "balancesByContract ?meta ?raw False = Inr ?out"
    by (rule balancesByContract_raw_example)
  from balancesByContract_keys [of ?meta ?raw False ?out] run
  have "set (obj_keys ?out) = set (obj_keys ?meta)"
    and "obj_get ?out ''0xB'' = None"
    and "list_all (normalizable ?meta ?raw False) (obj_keys ?meta)"
    by (auto simp: obj_keys_single)
  with run show ?thesis by (simp add: obj_keys_single)
qed

lemma fracDigits_unfold:
  "0 < d \<Longrightarrow> fracDigits d v = fracDigits (d - 1) (v div 10) @ [''0123456789'' ! (v mod 10)]"
  by (cases d) simp_all

lemma balancesByContract_balance:
  assumes run: "balancesByContract meta raw fmt = Inr out"
    and info: "obj_get meta a = Some info"
    and data: "obj_get raw a = Some d" "getBytes d = Inr bytes"
  shows "32 \<le> length bytes
       \<and> (\<exists>s. balanceString fmt (int (beValue (take 32 bytes))) (obj_get info ''decimals'') = Inr s
              \<and> tokenField out a ''balanceOf'' = Some (JString s))"
proof -
  from balancesByContract_entry [OF run info] obtain t
    where t: "balanceEntry meta raw fmt a = Inr t" and out: "obj_get out a = Some t" by blast
  have len: "32 \<le> length bytes"
  proof (rule ccontr)
    assume "\<not> 32 \<le> length bytes"
    with info data have "balanceEntry meta raw fmt a = Inl (EthersError BUFFER_OVERRUN)"
      by (simp add: balanceEntry_def abiDecode_uint256)
    with t show False by simp
  qed
  let ?v = "beValue (take 32 bytes)"
  from len info data beValue_word [OF len]
  have e: "balanceEntry meta raw fmt a
      = (case balanceString fmt (int ?v) (obj_get info ''decimals'') of
           Inl e \<Rightarrow> Inl e
         | Inr balance \<Rightarrow> Inr (obj_set info ''balanceOf'' (JString balance)))"
    by (simp add: balanceEntry_def abiDecode_uint256)
  with t obtain s where s: "balanceString fmt (int ?v) (obj_get info ''decimals'') = Inr s"
    and t': "t = obj_set info ''balanceOf'' (JString s)"
    by (cases "balanceString fmt (int ?v) (obj_get info ''decimals'')") auto
  from out t' have "tokenField out a ''balanceOf'' = Some (JString s)"
    by (simp add: tokenField_def obj_get_set)
  with len s show ?thesis by blast
qed

lemma balancesByContract_1000000:
  "balancesByContract [(''0xA'', [(''decimals'', JNumber (Finite 6))])]
     [(''0xA'', ''0x00000000000000000000000000000000000000000000000000000000000f4240'')] True
   = Inr [(''0xA'', [(''decimals'', JNumber (Finite 6)), (''balanceOf'', JString ''1.0'')])]"
proof -
  have p: "padWhole ''1000000'' 6 = ''1000000''" by (simp add: padWhole.simps)
  have "fixedToString 1000000 6 = ''1.0''"
    by (simp add: fixedToString_def natToString_1000000 p trimDecimal_def Let_def)
  then have "formatUnits 1000000 (Some (JNumber (Finite 6))) = Inr ''1.0''"
    by (simp add: formatUnits_def unitDecimals_def getNumber_def maxSafeInteger_def wrapSigned512_def)
  then show ?thesis
    by (simp add: balancesByContract_def obj_keys_single balancesStep_def obj_get_def abiDecode_1000000)
qed

text \<open>
  Claim C4, as stated, gives the balance string \<open>1\<close> for the raw balance 1000000 of a
  6-decimal token. \<^verbatim>\<open>formatUnits\<close> keeps one fractional digit: the string is \<open>1.0\<close>.
\<close>

theorem balancesByContract_whole_value_prints_point_zero:
  "balancesByContract [(''0xA'', [(''decimals'', JNumber (Finite 6))])]
     [(''0xA'', ''0x00000000000000000000000000000000000000000000000000000000000f4240'')] True
   = Inr [(''0xA'', [(''decimals'', JNumber (Finite 6)), (''balanceOf'', JString ''1.0'')])]
   \<and> JString ''1.0'' \<noteq> JString ''1''"
  using balancesByContract_1000000 by simp

text \<open>
  Claim C4, amended. For a metadata map whose entry for a contract has decimals 6 and a
  raw balance map whose bytes for that contract encode the unsigned 256-bit integer
  1000000, the normalizer with \<open>humanReadable = true\<close> produces the balance string \<open>1.0\<close>,
  and with \<open>humanReadable = false\<close> the string \<open>1000000\<close>. In general, when the normalizer
  returns, the string that is not human-readable is the integer \<open>v\<close> of the first 32 bytes
  in decimal; the human-readable one, for \<open>d\<close> decimals between 1 and 80, is the integer
  part \<open>v div 10 ^ d\<close> in decimal, a point, and the \<open>d\<close> digits of \<open>v mod 10 ^ d\<close> without
  their trailing zeros, one digit always kept; for 0 decimals it is \<open>v\<close> in decimal.
  Nothing is rounded and only zeros are dropped.
\<close>

theorem balancesByContract_balance_string:
  assumes run: "balancesByContract meta raw fmt = Inr out"
    and info: "obj_get meta a = Some info"
    and data: "obj_get raw a = Some d" "getBytes d = Inr bytes"
    and v: "v = beValue (take 32 bytes)"
  shows "32 \<le> length bytes \<and> v < 2 ^ 256 \<and> decValue (natToString v) = v
       \<and> (\<not> fmt \<longrightarrow> tokenField out a ''balanceOf'' = Some (JString (natToString v)))
       \<and> (fmt \<and> obj_get info ''decimals'' = Some (JNumber (Finite 0)) \<longrightarrow>
            tokenField out a ''balanceOf'' = Some (JString (natToString v)))
       \<and> (fmt \<and> obj_get info ''decimals'' = Some (JNumber (Finite (of_nat dec))) \<and> 0 < dec \<and> dec \<le> 80 \<longrightarrow>
            tokenField out a ''balanceOf''
            = Some (JString (natToString (v div 10 ^ dec) @ ''.'' @ stripZeros (fracDigits dec v)))
            \<and> decValue (natToString (v div 10 ^ dec)) = v div 10 ^ dec
            \<and> length (fracDigits dec v) = dec
            \<and> decValue (fracDigits dec v) = v mod 10 ^ dec
            \<and> stripZeros (fracDigits dec v)
                @ replicate (dec - length (stripZeros (fracDigits dec v))) CHR ''0''
              = fracDigits dec v)"
proof -
  from balancesByContract_balance [OF run info data] obtain s
    where len: "32 \<le> length bytes"
      and s: "balanceString fmt (int v) (obj_get info ''decimals'') = Inr s"
      and field: "tokenField out a ''balanceOf'' = Some (JString s)"
    unfolding v by blast
  from len have "length (take 32 bytes) = 32" by simp
  with beValue_less [of "take 32 bytes"] have "v < 256 ^ 32" by (simp add: v)
  then have bound: "v < 2 ^ 256" by simp
  have raw: "tokenField out a ''balanceOf'' = Some (JString (natToString v))" if "\<not> fmt"
    using that s field by (simp add: balanceString_def bigintToString_def)
  have zero: "tokenField out a ''balanceOf'' = Some (JString (natToString v))"
    if "fmt \<and> obj_get info ''decimals'' = Some (JNumber (Finite 0))"
  proof -
    have "formatUnits (int v) (Some (JNumber (Finite (of_nat 0)))) = Inr (fixedToString (int v) (int 0))"
      using bound by (rule formatUnits_decimals) simp
    with that s field show ?thesis
      by (simp add: balanceString_def fixedToString_zero_decimals)
  qed
  have frac: "tokenField out a ''balanceOf''
            = Some (JString (natToString (v div 10 ^ dec) @ ''.'' @ stripZeros (fracDigits dec v)))"
    if h: "fmt \<and> obj_get info ''decimals'' = Some (JNumber (Finite (of_nat dec))) \<and> 0 < dec \<and> dec \<le> 80"
  proof -
    from h have d: "0 < dec" "dec \<le> 80" by simp_all
    from formatUnits_decimals [OF bound d(2)] fixedToString_fraction [OF d, of v]
    have "formatUnits (int v) (Some (JNumber (Finite (of_nat dec))))
        = Inr (natToString (v div 10 ^ dec) @ CHR ''.'' # stripZeros (fracDigits dec v))" by simp
    with h s field show ?thesis by (simp add: balanceString_def)
  qed
  have pad: "stripZeros (fracDigits dec v)
                @ replicate (dec - length (stripZeros (fracDigits dec v))) CHR ''0''
              = fracDigits dec v" if "0 < dec"
  proof -
    from that have "fracDigits dec v \<noteq> []" using length_fracDigits [of dec v] by auto
    from stripZeros_pad [OF this] show ?thesis by (simp add: length_fracDigits)
  qed
  from len bound raw zero frac pad show ?thesis
    by (simp add: decValue_natToString length_fracDigits decValue_fracDigits)
qed

theorem balancesByContract_balance_string_witness:
  "balancesByContract [(''0xA'', [(''decimals'', JNumber (Finite 6))])]
     [(''0xA'', ''0x00000000000000000000000000000000000000000000000000000000000f4240'')] True
   = Inr [(''0xA'', [(''decimals'', JNumber (Finite 6)), (''balanceOf'', JString ''1.0'')])]
   \<and> obj_get [(''0xA'', [(''decimals'', JNumber (Finite 6))])] ''0xA''
      = Some [(''decimals'', JNumber (Finite 6))]
   \<and> obj_get [(''0xA'', ''0x00000000000000000000000000000000000000000000000000000000000f4240'')] ''0xA''
      = Some ''0x00000000000000000000000000000000000000000000000000000000000f4240''
   \<and> beValue (take 32 (dataBytes ''0x00000000000000000000000000000000000000000000000000000000000f4240''))
      = 1000000
   \<and> obj_get [(''decimals'', JNumber (Finite 6))] ''decimals'' = Some (JNumber (Finite (of_nat 6)))
   \<and> tokenField [(''0xA'', [(''decimals'', JNumber (Finite 6)), (''balanceOf'', JString ''1.0'')])]
        ''0xA'' ''balanceOf''
      = Some (JString (natToString (1000000 div 10 ^ 6) @ ''.'' @ stripZeros (fracDigits 6 1000000)))
   \<and> natToString (1000000 div 10 ^ 6) @ ''.'' @ stripZeros (fracDigits 6 1000000) = ''1.0''"
proof -
  let ?meta = "[(''0xA'', [(''decimals'', JNumber (Finite 6))])]"
  let ?d = "''0x00000000000000000000000000000000000000000000000000000000000f4240''"
  let ?raw = "[(''0xA'', ?d)]"
  let ?out = "[(''0xA'', [(''decimals'', JNumber (Finite 6)), (''balanceOf'', JString ''1.0'')])]"
  let ?bytes = "[0, 0, 0, 0, 0, 0, 0, 0, 0, 0, 0, 0, 0, 0, 0, 0, 0, 0, 0, 0, 0, 0, 0, 0, 0, 0, 0, 0, 0, 0x0f, 0x42, 0x40] :: byte list"
  have bytes: "getBytes ?d = Inr ?bytes"
    by (simp add: getBytes_def hexDigit_def upt_rec)
  have val: "beValue (take 32 ?bytes) = 1000000"
    by (simp add: beValue_def)
  have run: "balancesByContract ?meta ?raw True = Inr ?out"
    by (rule balancesByContract_1000000)
  have info: "obj_get ?meta ''0xA'' = Some [(''decimals'', JNumber (Finite 6))]"
    and data: "obj_get ?raw ''0xA'' = Some ?d"
    and dec: "obj_get [(''decimals'', JNumber (Finite 6))] ''decimals'' = Some (JNumber (Finite (of_nat 6)))"
    by (simp_all add: obj_get_def)
  have digits: "fracDigits 6 1000000 = ''000000''"
    by (simp add: fracDigits_unfold)
  have shown: "natToString (1000000 div 10 ^ 6) @ ''.'' @ stripZeros (fracDigits 6 1000000) = ''1.0''"
    by (simp add: digits natToString.simps stripZeros_def)
  from balancesByContract_balance_string [OF run info data bytes val [symmetric], of 6] dec
  have "tokenField ?out ''0xA'' ''balanceOf''
      = Some (JString (natToString (1000000 div 10 ^ 6) @ ''.'' @ stripZeros (fracDigits 6 1000000)))"
    by simp
  with run info data dec shown val bytes show ?thesis
    by (simp add: dataBytes_def)
qed

end
